theory Spec2Isabelle
  imports Main "HOL-Library.List_Lexorder" "HOL-Library.Char_ord" "HOL-Library.Monad_Syntax"
    "HOL-Library.Multiset"
begin

section \<open>Departure board (oled.py): data model\<close>

text \<open>
  The value of a timestamp field of the decoded JSON: a string, as the journey planner
  sends it, or a number, which only a malformed payload holds. Strings are lists of
  characters compared by code point, as Python compares \<open>str\<close>.
\<close>

datatype jvalue = JStr string | JNum int

text \<open>
  One estimated call, as the GraphQL query of \<open>fetch_departures\<close> asks for it. A field
  the code reads with \<open>.get\<close> is optional: \<open>None\<close> is a missing key, and for the two
  timestamps and the transport mode also a null. The destination text is a string when
  its key is there, and the line's public code is read by subscript and is taken as
  present.
\<close>

record call =
  expectedArrivalTime :: "jvalue option"
  aimedArrivalTime :: "jvalue option"
  realtime :: bool
  frontText :: "string option"
  publicCode :: string
  transportMode :: "string option"

text \<open>
  A parsed \<open>datetime\<close>. \<open>Naive n\<close> carries no UTC offset: \<open>n\<close> is its wall-clock reading in
  microseconds counted from 1970-01-01T00:00:00. \<open>Aware i\<close> carries an offset: \<open>i\<close> is the
  instant it denotes, in microseconds since the epoch (UTC).
\<close>

datatype datetime = Naive int | Aware int

text \<open>The exceptions the modelled code catches.\<close>

datatype error = ValueError | TypeError | AttributeError

text \<open>
  \<open>datetime.fromisoformat\<close> belongs to Python's library, not to this program: the
  program's functions take it as the parameter \<open>parse\<close>, with \<open>None\<close> for its
  \<open>ValueError\<close>.
\<close>

type_synonym parser = "string \<Rightarrow> datetime option"

section \<open>Time and delay calculation\<close>

text \<open>\<open>s.replace("Z", "+00:00")\<close>: every \<open>Z\<close> of the string is replaced.\<close>

definition replace_Z :: "string \<Rightarrow> string" where
  "replace_Z s = concat (map (\<lambda>c. if c = CHR ''Z'' then ''+00:00'' else [c]) s)"

text \<open>
  Python's truth test of \<open>dep.get(key)\<close> on a timestamp field: a missing key, \<open>None\<close>,
  the empty string and the number 0 are all false.
\<close>

definition truthy :: "jvalue option \<Rightarrow> bool" where
  "truthy v =
     (case v of None \<Rightarrow> False | Some (JStr s) \<Rightarrow> s \<noteq> [] | Some (JNum n) \<Rightarrow> n \<noteq> 0)"

text \<open>
  \<open>t_exp > t_aim\<close>: two naive values compare by their readings, two aware values by
  their instants, and a naive with an aware value raises \<open>TypeError\<close>.
\<close>

fun dt_greater :: "datetime \<Rightarrow> datetime \<Rightarrow> error + bool" where
  "dt_greater (Naive a) (Naive b) = Inr (b < a)"
| "dt_greater (Aware a) (Aware b) = Inr (b < a)"
| "dt_greater (Naive a) (Aware b) = Inl TypeError"
| "dt_greater (Aware a) (Naive b) = Inl TypeError"

text \<open>
  \<open>t - now_utc\<close> with the aware \<open>now_utc\<close>: the difference of the instants in
  microseconds; subtracting an aware from a naive value raises \<open>TypeError\<close>.
\<close>

fun sub_now :: "datetime \<Rightarrow> int \<Rightarrow> error + int" where
  "sub_now (Aware i) now_utc = Inr (i - now_utc)"
| "sub_now (Naive n) now_utc = Inl TypeError"

text \<open>
  \<open>int(delta.total_seconds() / 60)\<close> on a difference of \<open>d\<close> microseconds: the quotient
  by one minute, truncated toward zero. The model divides exactly; Python divides in
  double precision, which changes neither the sign of the quotient nor the clamp below.
\<close>

definition whole_minutes :: "int \<Rightarrow> int" where
  "whole_minutes d = (if 0 \<le> d then d div 60000000 else - ((- d) div 60000000))"

text \<open>
  Lines 280-284 and 289-293 of \<open>draw_board\<close>, for one timestamp string: parse, subtract
  \<open>now_utc\<close>, whole minutes, \<open>max(_, 0)\<close>. \<open>Inl\<close> is the exception that leaves the
  \<open>try\<close> block.
\<close>

definition minutes_from :: "parser \<Rightarrow> int \<Rightarrow> string \<Rightarrow> error + int" where
  "minutes_from parse now_utc s =
     (case parse (replace_Z s) of
        None \<Rightarrow> Inl ValueError
      | Some t \<Rightarrow>
          (case sub_now t now_utc of
             Inl e \<Rightarrow> Inl e
           | Inr d \<Rightarrow> Inr (max (whole_minutes d) 0)))"

text \<open>
  \<open>if aimed: ...\<close>: a falsy field leaves the minute value \<open>None\<close>. A number has no
  \<open>replace\<close>: the call raises \<open>AttributeError\<close>.
\<close>

definition field_minutes :: "parser \<Rightarrow> int \<Rightarrow> jvalue option \<Rightarrow> error + int option" where
  "field_minutes parse now_utc v =
     (if truthy v
      then (case the v of
              JNum n \<Rightarrow> Inl AttributeError
            | JStr s \<Rightarrow>
                (case minutes_from parse now_utc s of Inl e \<Rightarrow> Inl e | Inr m \<Rightarrow> Inr (Some m)))
      else Inr None)"

text \<open>
  The \<open>try\<close> block of a departure row (lines 273-298): scheduled minutes from the aimed
  time, then updated minutes from the expected time; an exception in either resets both
  to \<open>None\<close>.
\<close>

definition time_calc :: "parser \<Rightarrow> int \<Rightarrow> call \<Rightarrow> int option \<times> int option" where
  "time_calc parse now_utc dep =
     (case field_minutes parse now_utc (aimedArrivalTime dep) of
        Inl e \<Rightarrow> (None, None)
      | Inr mins_sched \<Rightarrow>
          (case field_minutes parse now_utc (expectedArrivalTime dep) of
             Inl e \<Rightarrow> (None, None)
           | Inr mins_updated \<Rightarrow> (mins_sched, mins_updated)))"

text \<open>Lines 300-304: the fallback when only one of the two values is available.\<close>

definition fallback :: "int option \<times> int option \<Rightarrow> int option \<times> int option" where
  "fallback p =
     (let mins_sched = fst p; mins_updated = snd p;
          mins_updated = (if mins_updated = None \<and> mins_sched \<noteq> None then mins_sched else mins_updated);
          mins_sched = (if mins_sched = None \<and> mins_updated \<noteq> None then mins_updated else mins_sched)
      in (mins_sched, mins_updated))"

text \<open>The scheduled and updated minutes a row is drawn with.\<close>

definition row_minutes :: "parser \<Rightarrow> int \<Rightarrow> call \<Rightarrow> int option \<times> int option" where
  "row_minutes parse now_utc dep = fallback (time_calc parse now_utc dep)"

text \<open>
  The delay test of lines 233-243 for one departure: whether the code reaches line 240.
  Any exception is swallowed by the \<open>except Exception: pass\<close>.
\<close>

definition delay_test :: "parser \<Rightarrow> jvalue option \<Rightarrow> jvalue option \<Rightarrow> error + bool" where
  "delay_test parse aimed expected =
     (if truthy aimed \<and> truthy expected
      then (case the aimed of
              JNum n \<Rightarrow> Inl AttributeError
            | JStr a \<Rightarrow>
                (case parse (replace_Z a) of
                   None \<Rightarrow> Inl ValueError
                 | Some t_aim \<Rightarrow>
                     (case the expected of
                        JNum n \<Rightarrow> Inl AttributeError
                      | JStr e \<Rightarrow>
                          (case parse (replace_Z e) of
                             None \<Rightarrow> Inl ValueError
                           | Some t_exp \<Rightarrow> dt_greater t_exp t_aim))))
      else Inr False)"

definition is_delayed :: "parser \<Rightarrow> jvalue option \<Rightarrow> jvalue option \<Rightarrow> bool" where
  "is_delayed parse aimed expected =
     (case delay_test parse aimed expected of Inl e \<Rightarrow> False | Inr b \<Rightarrow> b)"

section \<open>The library's timestamp parser on the timestamps of the API\<close>

text \<open>
  A model of \<open>datetime.fromisoformat\<close> on the shape the journey planner emits and the
  code produces from it: \<open>YYYY-MM-DDTHH:MM:SS\<close>, followed by nothing (a naive value)
  or by an offset \<open>+HH:MM\<close> or \<open>-HH:MM\<close> (an aware value). Every other string is
  rejected here. The theorems below hold for every parser; this one evaluates them on
  concrete strings.
\<close>

definition digit_value :: "char \<Rightarrow> nat option" where
  "digit_value c =
     (let n = (of_char c :: nat) in if 48 \<le> n \<and> n \<le> 57 then Some (n - 48) else None)"

fun number_from :: "nat \<Rightarrow> string \<Rightarrow> nat option" where
  "number_from acc [] = Some acc"
| "number_from acc (c # cs) =
     (case digit_value c of None \<Rightarrow> None | Some d \<Rightarrow> number_from (10 * acc + d) cs)"

definition number :: "string \<Rightarrow> int option" where
  "number s = (if s = [] then None else map_option int (number_from 0 s))"

definition is_leap :: "int \<Rightarrow> bool" where
  "is_leap y = (y mod 4 = 0 \<and> (y mod 100 \<noteq> 0 \<or> y mod 400 = 0))"

definition days_in_month :: "int \<Rightarrow> int \<Rightarrow> int" where
  "days_in_month y m =
     (if m = 2 then (if is_leap y then 29 else 28)
      else if m = 4 \<or> m = 6 \<or> m = 9 \<or> m = 11 then 30 else 31)"

text \<open>Days from 1970-01-01 to the given date of the proleptic Gregorian calendar.\<close>

definition days_from_civil :: "int \<Rightarrow> int \<Rightarrow> int \<Rightarrow> int" where
  "days_from_civil y m d =
     (let y1 = (if m \<le> 2 then y - 1 else y);
          era = y1 div 400;
          yoe = y1 - era * 400;
          doy = (153 * (if 2 < m then m - 3 else m + 9) + 2) div 5 + d - 1;
          doe = yoe * 365 + yoe div 4 - yoe div 100 + doy
      in era * 146097 + doe - 719468)"

definition parse_offset :: "string \<Rightarrow> int option" where
  "parse_offset s =
     (if length s = 6 \<and> (s ! 0 = CHR ''+'' \<or> s ! 0 = CHR ''-'') \<and> s ! 3 = CHR '':''
      then do {
        h \<leftarrow> number (take 2 (drop 1 s));
        m \<leftarrow> number (take 2 (drop 4 s));
        if h < 24 \<and> m < 60
        then Some ((if s ! 0 = CHR ''-'' then - 1 else 1) * (h * 3600 + m * 60) * 1000000)
        else None
      }
      else None)"

definition fromisoformat :: "string \<Rightarrow> datetime option" where
  "fromisoformat s =
     (if 19 \<le> length s \<and> s ! 4 = CHR ''-'' \<and> s ! 7 = CHR ''-'' \<and> s ! 10 = CHR ''T''
         \<and> s ! 13 = CHR '':'' \<and> s ! 16 = CHR '':''
      then do {
        y \<leftarrow> number (take 4 s);
        mo \<leftarrow> number (take 2 (drop 5 s));
        d \<leftarrow> number (take 2 (drop 8 s));
        h \<leftarrow> number (take 2 (drop 11 s));
        mi \<leftarrow> number (take 2 (drop 14 s));
        sec \<leftarrow> number (take 2 (drop 17 s));
        if 1 \<le> y \<and> 1 \<le> mo \<and> mo \<le> 12 \<and> 1 \<le> d \<and> d \<le> days_in_month y mo
           \<and> h < 24 \<and> mi < 60 \<and> sec < 60
        then (let reading = ((days_from_civil y mo d * 24 + h) * 3600 + mi * 60 + sec) * 1000000
              in if length s = 19 then Some (Naive reading)
                 else map_option (\<lambda>off. Aware (reading - off)) (parse_offset (drop 19 s)))
        else None
      }
      else None)"

section \<open>Text formatting\<close>

text \<open>\<open>str(n)\<close> of a natural number: its decimal digits.\<close>

definition digit_char :: "nat \<Rightarrow> char" where
  "digit_char d = ''0123456789'' ! (d mod 10)"

fun str_nat :: "nat \<Rightarrow> string" where
  "str_nat n = (if n < 10 then [digit_char n] else str_nat (n div 10) @ [digit_char (n mod 10)])"

declare str_nat.simps [simp del]

definition str_int :: "int \<Rightarrow> string" where
  "str_int i = (if i < 0 then CHR ''-'' # str_nat (nat (- i)) else str_nat (nat i))"

text \<open>The format \<open>{v:>2}\<close>: right-aligned in a field of two, padded with spaces on the left.\<close>

definition rjust2 :: "string \<Rightarrow> string" where
  "rjust2 s = replicate (2 - length s) CHR '' '' @ s"

text \<open>\<open>f"{mins:>2}m"\<close>.\<close>

definition minutes_text :: "int \<Rightarrow> string" where
  "minutes_text mins = rjust2 (str_int mins) @ ''m''"

text \<open>\<open>sep.join(parts)\<close>.\<close>

fun join :: "string \<Rightarrow> string list \<Rightarrow> string" where
  "join sep [] = []"
| "join sep [x] = x"
| "join sep (x # y # ys) = x @ sep @ join sep (y # ys)"

text \<open>
  The slice \<open>xs[:n]\<close> for an integer \<open>n\<close>: the first \<open>n\<close> elements, and for a negative
  \<open>n\<close> all but the last \<open>-n\<close>.
\<close>

definition slice_to :: "int \<Rightarrow> 'a list \<Rightarrow> 'a list" where
  "slice_to n xs = (if 0 \<le> n then take (nat n) xs else take (length xs - nat (- n)) xs)"

section \<open>Python's comparison, \<open>min\<close> and \<open>list.sort\<close> on field values\<close>

text \<open>
  \<open>a < b\<close> on two field values: strings compare by code point, numbers by value, and a
  string with a number raises \<open>TypeError\<close>.
\<close>

fun jless :: "jvalue \<Rightarrow> jvalue \<Rightarrow> error + bool" where
  "jless (JStr a) (JStr b) = Inr (a < b)"
| "jless (JNum a) (JNum b) = Inr (a < b)"
| "jless (JStr a) (JNum b) = Inl TypeError"
| "jless (JNum a) (JStr b) = Inl TypeError"

text \<open>
  \<open>min\<close> of a sequence: \<open>ValueError\<close> on an empty one; otherwise every further value is
  compared with the smallest so far and replaces it when it is less.
\<close>

fun min_from :: "jvalue \<Rightarrow> jvalue list \<Rightarrow> error + jvalue" where
  "min_from best [] = Inr best"
| "min_from best (v # vs) =
     (case jless v best of
        Inl e \<Rightarrow> Inl e
      | Inr lt \<Rightarrow> min_from (if lt then v else best) vs)"

definition py_min :: "jvalue list \<Rightarrow> error + jvalue" where
  "py_min vs = (case vs of [] \<Rightarrow> Inl ValueError | v # rest \<Rightarrow> min_from v rest)"

text \<open>
  \<open>list.sort(key=...)\<close> as CPython runs it on a list of fewer than 64 elements, which
  is one run: the sort finds the run the list starts with, reverses it when it is
  strictly descending, and inserts every later element into the sorted front at the
  place a binary search finds. A comparison that raises ends the sort at once and
  leaves the list as it is at that moment. (A longer list is sorted run by run and
  merged; where no comparison raises the result is the same stable sort.)

  \<open>run_desc\<close> and \<open>run_asc\<close> count how many elements continue a strictly descending,
  or a not descending, run after \<open>prev\<close>.
\<close>

fun run_desc :: "('a \<Rightarrow> jvalue) \<Rightarrow> 'a \<Rightarrow> 'a list \<Rightarrow> error + nat" where
  "run_desc key prev [] = Inr 0"
| "run_desc key prev (x # xs) =
     (case jless (key x) (key prev) of
        Inl e \<Rightarrow> Inl e
      | Inr lt \<Rightarrow>
          (if lt
           then (case run_desc key x xs of Inl e \<Rightarrow> Inl e | Inr n \<Rightarrow> Inr (Suc n))
           else Inr 0))"

fun run_asc :: "('a \<Rightarrow> jvalue) \<Rightarrow> 'a \<Rightarrow> 'a list \<Rightarrow> error + nat" where
  "run_asc key prev [] = Inr 0"
| "run_asc key prev (x # xs) =
     (case jless (key x) (key prev) of
        Inl e \<Rightarrow> Inl e
      | Inr lt \<Rightarrow>
          (if lt
           then Inr 0
           else (case run_asc key x xs of Inl e \<Rightarrow> Inl e | Inr n \<Rightarrow> Inr (Suc n))))"

text \<open>\<open>count_run\<close>: whether the first run is descending, and its length.\<close>

fun count_run :: "('a \<Rightarrow> jvalue) \<Rightarrow> 'a list \<Rightarrow> error + bool \<times> nat" where
  "count_run key (a # b # rest) =
     (case jless (key b) (key a) of
        Inl e \<Rightarrow> Inl e
      | Inr lt \<Rightarrow>
          (if lt
           then (case run_desc key b rest of Inl e \<Rightarrow> Inl e | Inr n \<Rightarrow> Inr (True, n + 2))
           else (case run_asc key b rest of Inl e \<Rightarrow> Inl e | Inr n \<Rightarrow> Inr (False, n + 2))))"
| "count_run key xs = Inr (False, length xs)"

text \<open>
  The binary search of \<open>binarysort\<close> for the place of \<open>pivot\<close> among the keys \<open>ks\<close> of
  the sorted front, between the indices \<open>l\<close> and \<open>r\<close>.
\<close>

function bisect :: "jvalue \<Rightarrow> jvalue list \<Rightarrow> nat \<Rightarrow> nat \<Rightarrow> error + nat" where
  "bisect pivot ks l r =
     (if l < r
      then (let p = l + (r - l) div 2
            in case jless pivot (ks ! p) of
                 Inl e \<Rightarrow> Inl e
               | Inr lt \<Rightarrow> (if lt then bisect pivot ks l p else bisect pivot ks (p + 1) r))
      else Inr l)"
  by pat_completeness auto
termination
  by (relation "measure (\<lambda>(pivot, ks, l, r). r - l)") auto

declare bisect.simps [simp del]

text \<open>
  \<open>binarysort\<close>: the elements of \<open>rest\<close> are inserted one by one into \<open>front\<close>, which is
  sorted. The result says whether a comparison raised, and gives the list as it then is.
\<close>

fun binarysort :: "('a \<Rightarrow> jvalue) \<Rightarrow> 'a list \<Rightarrow> 'a list \<Rightarrow> error option \<times> 'a list" where
  "binarysort key front [] = (None, front)"
| "binarysort key front (x # rest) =
     (case bisect (key x) (map key front) 0 (length front) of
        Inl e \<Rightarrow> (Some e, front @ x # rest)
      | Inr l \<Rightarrow> binarysort key (take l front @ x # drop l front) rest)"

definition list_sort :: "('a \<Rightarrow> jvalue) \<Rightarrow> 'a list \<Rightarrow> error option \<times> 'a list" where
  "list_sort key xs =
     (if length xs < 2 then (None, xs)
      else (case count_run key xs of
              Inl e \<Rightarrow> (Some e, xs)
            | Inr (descending, n) \<Rightarrow>
                binarysort key (if descending then rev (take n xs) else take n xs) (drop n xs)))"

section \<open>Stop query: \<open>fetch_departures\<close>\<close>

text \<open>
  What the HTTP request of \<open>fetch_departures\<close> comes back with, as far as the function
  tells the cases apart: \<open>RequestFailed\<close> is every exception of the \<open>try\<close> block (the
  transport, the status, the JSON decoding, a missing key of the payload);
  \<open>GraphQLErrors\<close> is a payload with an \<open>errors\<close> key; \<open>StopNull\<close> is a null
  \<open>stopPlace\<close>; \<open>StopPlace name calls\<close> is a stop with its \<open>name\<close> (\<open>None\<close>: the key is
  missing) and its \<open>estimatedCalls\<close>. The network is the parameter \<open>api\<close>, from the stop
  identifier to the response.
\<close>

datatype response =
    RequestFailed
  | GraphQLErrors
  | StopNull
  | StopPlace "string option" "call list"

definition fetch_departures :: "(string \<Rightarrow> response) \<Rightarrow> string \<Rightarrow> string \<times> call list" where
  "fetch_departures api stop_id =
     (case api stop_id of
        RequestFailed \<Rightarrow> (''Error'', [])
      | GraphQLErrors \<Rightarrow> (''Error'', [])
      | StopNull \<Rightarrow> (''Not Found'', [])
      | StopPlace name calls \<Rightarrow>
          (let stop_name = (case name of None \<Rightarrow> ''Unknown Stop'' | Some n \<Rightarrow> n);
               filtered_calls = filter (\<lambda>c. truthy (expectedArrivalTime c)) calls
           in (stop_name, filtered_calls)))"

section \<open>Aggregation: \<open>get_all_departures\<close>\<close>

text \<open>A configured stop; the aggregation reads its \<open>id\<close> only.\<close>

record stop =
  id_of :: string
  name_of :: string
  type_of :: string

text \<open>
  \<open>dt.astimezone(datetime.timezone.utc)\<close>: an aware value keeps its instant; a naive one
  is read in the system's zone, whose UTC offset at a wall-clock reading is the parameter
  \<open>sysoff\<close>.
\<close>

fun astimezone_utc :: "(int \<Rightarrow> int) \<Rightarrow> datetime \<Rightarrow> int" where
  "astimezone_utc sysoff (Aware i) = i"
| "astimezone_utc sysoff (Naive n) = n - sysoff n"

definition zero2 :: "int \<Rightarrow> string" where
  "zero2 n = (if n < 10 then CHR ''0'' # str_int n else str_int n)"

text \<open>\<open>strftime("%H:%M")\<close> of a wall-clock reading in microseconds.\<close>

definition strftime_HM :: "int \<Rightarrow> string" where
  "strftime_HM reading =
     (let s = (reading div 1000000) mod 86400
      in zero2 (s div 3600) @ '':'' @ zero2 (s mod 3600 div 60))"

text \<open>
  Lines 171-184: the next-arrival label of a stop. The display zone \<open>tz\<close> gives its UTC
  offset at an instant, \<open>None\<close> where the conversion raises. The empty label is also the
  result of every exception of the outer \<open>try\<close>: \<open>min\<close> of no value or of a string
  and a number, a number in place of the timestamp, a timestamp that does not parse.
\<close>

definition next_info ::
    "parser \<Rightarrow> (int \<Rightarrow> int) \<Rightarrow> (int \<Rightarrow> int option) \<Rightarrow> int \<Rightarrow> call list \<Rightarrow> string" where
  "next_info parse sysoff tz now_utc calls =
     (if calls = [] then []
      else
        (let times = map (\<lambda>c. the (expectedArrivalTime c))
                       (filter (\<lambda>c. truthy (expectedArrivalTime c)) calls)
         in case py_min times of
              Inl e \<Rightarrow> []
            | Inr (JNum n) \<Rightarrow> []
            | Inr (JStr earliest) \<Rightarrow>
                (case parse (replace_Z earliest) of
                   None \<Rightarrow> []
                 | Some t \<Rightarrow>
                     (let t_exp = astimezone_utc sysoff t;
                          mins = max (whole_minutes (t_exp - now_utc)) 0;
                          time_str = (case tz t_exp of
                                        None \<Rightarrow> ''--:--''
                                      | Some off \<Rightarrow> strftime_HM (t_exp + off))
                      in str_int mins @ ''m '' @ time_str))))"

text \<open>The body of the loop over the configured stops, on the pair \<open>(deps, stop_infos)\<close>.\<close>

definition visit_stop ::
    "parser \<Rightarrow> (int \<Rightarrow> int) \<Rightarrow> (string \<Rightarrow> response) \<Rightarrow> (int \<Rightarrow> int option) \<Rightarrow> int
     \<Rightarrow> call list \<times> string list \<Rightarrow> stop \<Rightarrow> call list \<times> string list" where
  "visit_stop parse sysoff api tz now_utc acc stop =
     (let (stop_name, calls) = fetch_departures api (id_of stop)
      in if stop_name = ''Not Found'' \<or> stop_name = ''Error'' then acc
         else
           (let info = next_info parse sysoff tz now_utc calls;
                label = (if info \<noteq> [] then stop_name @ '' '' @ info else stop_name)
            in (fst acc @ calls, snd acc @ [label])))"

text \<open>
  The sort key of line 194: \<open>d.get("expectedArrivalTime") or ""\<close>, the value itself
  when it is true and the empty string otherwise.
\<close>

definition sort_field :: "call \<Rightarrow> jvalue" where
  "sort_field d = (if truthy (expectedArrivalTime d) then the (expectedArrivalTime d) else JStr [])"

text \<open>
  Lines 193-196: the sort inside \<open>try\<close>, with \<open>except Exception: pass\<close>. Whether or not
  the sort raised, the function goes on with the list as the sort left it.
\<close>

definition get_all_departures ::
    "parser \<Rightarrow> (int \<Rightarrow> int) \<Rightarrow> (string \<Rightarrow> response) \<Rightarrow> stop list \<Rightarrow> (int \<Rightarrow> int option) \<Rightarrow> int
     \<Rightarrow> call list \<times> string list" where
  "get_all_departures parse sysoff api stops tz now_utc =
     (let (deps, stop_infos) = foldl (visit_stop parse sysoff api tz now_utc) ([], []) stops
      in (snd (list_sort sort_field deps), stop_infos))"

section \<open>Rendering: \<open>draw_board\<close>\<close>

text \<open>
  The canvas is the list of drawing calls in the order the code issues them, ending with
  \<open>device.display\<close>. \<open>Text x y s f\<close> is \<open>draw.text((x, y), s, font=f)\<close>, \<open>Line\<close> a
  \<open>draw.line\<close> of its four coordinates, \<open>Rectangle\<close> the background fill. The
  measurement \<open>draw.textbbox(xy, text, font=FONT)\<close> is the parameter \<open>textbbox\<close>; its
  result is the box \<open>(x0, y0, x1, y1)\<close>: left, upper, right and lower edge.
\<close>

datatype font = FONT | FONT_ICON

datatype draw_op =
    Rectangle int int int int
  | Text int int string font
  | Line int int int int
  | Display

type_synonym bbox = "int \<times> int \<times> int \<times> int"

record device =
  width :: int
  height :: int

text \<open>\<open>str.lower()\<close> on the code points below 256.\<close>

definition lower_char :: "char \<Rightarrow> char" where
  "lower_char c =
     (let n = (of_char c :: nat)
      in if (65 \<le> n \<and> n \<le> 90) \<or> (192 \<le> n \<and> n \<le> 222 \<and> n \<noteq> 215) then char_of (n + 32) else c)"

text \<open>
  The two icons are single code points beyond the 8-bit characters of \<open>string\<close>; they
  stand here as their UTF-8 bytes (U+1F68A and U+1F68C).
\<close>

definition tram_symbol :: string where
  "tram_symbol = [CHR 0xF0, CHR 0x9F, CHR 0x9A, CHR 0x8A]"

definition bus_symbol :: string where
  "bus_symbol = [CHR 0xF0, CHR 0x9F, CHR 0x9A, CHR 0x8C]"

text \<open>Lines 231-243: the set of line codes of the delayed departures.\<close>

definition delayed_routes :: "parser \<Rightarrow> call list \<Rightarrow> string set" where
  "delayed_routes parse deps =
     set (map publicCode
            (filter (\<lambda>dep. is_delayed parse (aimedArrivalTime dep) (expectedArrivalTime dep)) deps))"

text \<open>Lines 313-338: the time field of a row at height \<open>y\<close>.\<close>

definition time_field ::
    "(int \<times> int \<Rightarrow> string \<Rightarrow> bbox) \<Rightarrow> int \<Rightarrow> bool \<Rightarrow> int option \<times> int option \<Rightarrow> draw_op list" where
  "time_field textbbox y rt p =
     (let mins_sched = fst p; mins_updated = snd p
      in if rt \<and> mins_sched \<noteq> None \<and> mins_updated \<noteq> None \<and> mins_sched \<noteq> mins_updated
         then
           (let sched_text = minutes_text (the mins_sched);
                updated_text = minutes_text (the mins_updated);
                (x0, y0, x1, y1) = textbbox (200, y) sched_text;
                mid_y = (y0 + y1) div 2;
                updated_x = x1 + 4
            in [Text 200 y sched_text FONT,
                Line x0 mid_y x1 mid_y,
                Text updated_x y updated_text FONT])
         else
           (let mins = (case mins_updated of None \<Rightarrow> 0 | Some m \<Rightarrow> m)
            in [Text 200 y (minutes_text mins) FONT]))"

text \<open>Lines 263-338: one departure row at height \<open>y\<close>.\<close>

definition draw_row ::
    "(int \<times> int \<Rightarrow> string \<Rightarrow> bbox) \<Rightarrow> parser \<Rightarrow> int \<Rightarrow> int \<Rightarrow> call \<Rightarrow> draw_op list" where
  "draw_row textbbox parse now_utc y dep =
     (let line = publicCode dep;
          dest = (case frontText dep of None \<Rightarrow> [] | Some t \<Rightarrow> t);
          mode_norm = map lower_char (case transportMode dep of None \<Rightarrow> [] | Some m \<Rightarrow> m);
          symbol = (if mode_norm = ''tram'' then tram_symbol else bus_symbol);
          p = row_minutes parse now_utc dep;
          dest_short = take 18 dest
      in [Text 5 y symbol FONT_ICON, Text 35 y line FONT, Text 65 y dest_short FONT]
         @ time_field textbbox y (realtime dep) p)"

text \<open>The loop of line 262: each row 15 pixels below the one before.\<close>

fun draw_rows ::
    "(int \<times> int \<Rightarrow> string \<Rightarrow> bbox) \<Rightarrow> parser \<Rightarrow> int \<Rightarrow> int \<Rightarrow> call list \<Rightarrow> draw_op list" where
  "draw_rows textbbox parse now_utc y [] = []"
| "draw_rows textbbox parse now_utc y (dep # deps) =
     draw_row textbbox parse now_utc y dep @ draw_rows textbbox parse now_utc (y + 15) deps"

text \<open>Lines 224-227: the header text.\<close>

definition header_text :: "string list \<Rightarrow> string" where
  "header_text stop_infos =
     take 40 (if stop_infos \<noteq> [] then join '' / '' stop_infos else ''Departure Board'')"

text \<open>
  \<open>draw_board\<close>. The two readings of the clock it takes itself are inputs here: the
  header's clock text \<open>now_local\<close> (lines 210-213) and the instant \<open>now_utc\<close> of line
  216, in microseconds since the epoch. \<open>num_display\<close> is the configured
  \<open>numberOfDepartures\<close>.
\<close>

definition draw_board ::
    "(int \<times> int \<Rightarrow> string \<Rightarrow> bbox) \<Rightarrow> parser \<Rightarrow> device \<Rightarrow> int \<Rightarrow> string \<Rightarrow> int
     \<Rightarrow> call list \<Rightarrow> string list \<Rightarrow> draw_op list" where
  "draw_board textbbox parse dev num_display now_local now_utc deps stop_infos =
     (let (x0, y0, x1, y1) = textbbox (0, 0) now_local;
          time_width = x1 - x0;
          time_x = width dev - time_width - 5;
          routes = delayed_routes parse deps;
          y = (if routes \<noteq> {} then 32 else 25)
      in [Rectangle 0 0 (width dev - 1) (height dev - 1),
          Text time_x 5 now_local FONT,
          Text 5 5 (header_text stop_infos) FONT]
         @ (if routes \<noteq> {}
            then [Text 5 20 (''Delays: '' @ join '', '' (sorted_list_of_set routes)) FONT]
            else [])
         @ draw_rows textbbox parse now_utc y (slice_to num_display deps)
         @ [Display])"

section \<open>The refresh loop\<close>

text \<open>
  The variables of the main loop, and the clock readings of one iteration: \<open>now\<close> is
  \<open>time.time()\<close> and \<open>fetch_utc\<close> the \<open>datetime.now\<close> of line 364, both in
  microseconds; \<open>render_local\<close> and \<open>render_utc\<close> are the two readings \<open>draw_board\<close>
  takes. \<open>refresh\<close> is the refresh interval in microseconds.
\<close>

record cache =
  next_fetch :: int
  cached_deps :: "call list"
  cached_stop_infos :: "string list"

record clock =
  now :: int
  fetch_utc :: int
  render_local :: string
  render_utc :: int

definition start :: cache where
  "start = \<lparr>next_fetch = 0, cached_deps = [], cached_stop_infos = []\<rparr>"

text \<open>Lines 362-366: the fetch of an iteration, when it is due.\<close>

definition refresh_cache ::
    "parser \<Rightarrow> (int \<Rightarrow> int) \<Rightarrow> (string \<Rightarrow> response) \<Rightarrow> stop list \<Rightarrow> (int \<Rightarrow> int option) \<Rightarrow> int
     \<Rightarrow> cache \<Rightarrow> clock \<Rightarrow> cache" where
  "refresh_cache parse sysoff api stops tz refresh c k =
     (if next_fetch c \<le> now k
      then (let (deps, stop_infos) = get_all_departures parse sysoff api stops tz (fetch_utc k)
            in \<lparr>next_fetch = now k + refresh, cached_deps = deps, cached_stop_infos = stop_infos\<rparr>)
      else c)"

text \<open>Line 368: the frame an iteration draws from the cache.\<close>

definition render ::
    "(int \<times> int \<Rightarrow> string \<Rightarrow> bbox) \<Rightarrow> parser \<Rightarrow> device \<Rightarrow> int \<Rightarrow> cache \<Rightarrow> clock \<Rightarrow> draw_op list" where
  "render textbbox parse dev num_display c k =
     draw_board textbbox parse dev num_display (render_local k) (render_utc k)
       (cached_deps c) (cached_stop_infos c)"

text \<open>
  The loop runs until it is interrupted; the model runs one iteration per element of the
  list of clock readings and returns the frames drawn and the last cache.
\<close>

fun main_loop ::
    "(int \<times> int \<Rightarrow> string \<Rightarrow> bbox) \<Rightarrow> parser \<Rightarrow> (int \<Rightarrow> int) \<Rightarrow> (string \<Rightarrow> response) \<Rightarrow> stop list
     \<Rightarrow> (int \<Rightarrow> int option) \<Rightarrow> int \<Rightarrow> device \<Rightarrow> int \<Rightarrow> cache \<Rightarrow> clock list
     \<Rightarrow> draw_op list list \<times> cache" where
  "main_loop textbbox parse sysoff api stops tz refresh dev num_display c [] = ([], c)"
| "main_loop textbbox parse sysoff api stops tz refresh dev num_display c (k # ks) =
     (let c1 = refresh_cache parse sysoff api stops tz refresh c k;
          frame = render textbbox parse dev num_display c1 k;
          (frames, c2) = main_loop textbbox parse sysoff api stops tz refresh dev num_display c1 ks
      in (frame # frames, c2))"

section \<open>The specification's wording, and example inputs\<close>

text \<open>
  The delay test as the specification words it: true exactly when both strings parse and
  the expected instant is later than the aimed one. A naive value is read as an instant
  the way Python itself does, in the system's zone.
\<close>

definition spec_isDelayed :: "parser \<Rightarrow> (int \<Rightarrow> int) \<Rightarrow> jvalue option \<Rightarrow> jvalue option \<Rightarrow> bool" where
  "spec_isDelayed parse sysoff aimed expected =
     (case (aimed, expected) of
        (Some (JStr a), Some (JStr e)) \<Rightarrow>
          (case (parse (replace_Z a), parse (replace_Z e)) of
             (Some t_aim, Some t_exp) \<Rightarrow> astimezone_utc sysoff t_aim < astimezone_utc sysoff t_exp
           | _ \<Rightarrow> False)
      | _ \<Rightarrow> False)"

text \<open>A call with no aimed time, expected at 10:05 UTC on 2024-01-01.\<close>

definition only_expected :: call where
  "only_expected = \<lparr>expectedArrivalTime = Some (JStr ''2024-01-01T10:05:00Z''), aimedArrivalTime = None,
     realtime = True, frontText = Some ''Majorstuen'', publicCode = ''12'',
     transportMode = Some ''tram''\<rparr>"

text \<open>A display zone one hour ahead of UTC.\<close>

definition oslo_winter :: "int \<Rightarrow> int option" where
  "oslo_winter i = Some 3600000000"

text \<open>
  The calls that survive the aggregation, in the order the stops are processed: the
  filtered calls of every configured stop whose query did not come back as
  \<open>Not Found\<close> or \<open>Error\<close>.
\<close>

definition surviving_calls :: "(string \<Rightarrow> response) \<Rightarrow> stop list \<Rightarrow> call list" where
  "surviving_calls api stops =
     concat (map (\<lambda>s. snd (fetch_departures api (id_of s)))
       (filter (\<lambda>s. fst (fetch_departures api (id_of s)) \<noteq> ''Not Found''
                    \<and> fst (fetch_departures api (id_of s)) \<noteq> ''Error'') stops))"

text \<open>
  The sort key as the specification words it: a missing or unparseable timestamp sorts as
  the empty string.
\<close>

definition spec_sort_field :: "parser \<Rightarrow> call \<Rightarrow> string" where
  "spec_sort_field parse d =
     (case expectedArrivalTime d of
        Some (JStr t) \<Rightarrow> (if parse (replace_Z t) = None then [] else t)
      | _ \<Rightarrow> [])"

text \<open>Whether a field value is a string, and its text.\<close>

definition is_str :: "jvalue \<Rightarrow> bool" where
  "is_str v = (case v of JStr s \<Rightarrow> True | JNum n \<Rightarrow> False)"

definition text_of :: "jvalue \<Rightarrow> string" where
  "text_of v = (case v of JStr s \<Rightarrow> s | JNum n \<Rightarrow> [])"

text \<open>The sort key of a call as text, for a key that is a string.\<close>

definition sort_text :: "call \<Rightarrow> string" where
  "sort_text d = text_of (sort_field d)"

text \<open>A response without the calls that have no expected arrival time.\<close>

definition without_absent :: "response \<Rightarrow> response" where
  "without_absent r =
     (case r of
        StopPlace name calls \<Rightarrow> StopPlace name (filter (\<lambda>c. expectedArrivalTime c \<noteq> None) calls)
      | _ \<Rightarrow> r)"

text \<open>Example calls, stops and responses.\<close>

definition delayed_tram :: call where
  "delayed_tram = \<lparr>expectedArrivalTime = Some (JStr ''2024-01-01T10:05:00Z''),
     aimedArrivalTime = Some (JStr ''2024-01-01T10:00:00Z''), realtime = True,
     frontText = Some ''Majorstuen'', publicCode = ''12'', transportMode = Some ''Tram''\<rparr>"

definition no_expected :: call where
  "no_expected = \<lparr>expectedArrivalTime = None,
     aimedArrivalTime = Some (JStr ''2024-01-01T09:58:00Z''), realtime = False,
     frontText = Some ''Skoyen'', publicCode = ''31'', transportMode = Some ''bus''\<rparr>"

definition garbled :: call where
  "garbled = \<lparr>expectedArrivalTime = Some (JStr ''zzz''), aimedArrivalTime = None, realtime = False,
     frontText = None, publicCode = ''54'', transportMode = None\<rparr>"

definition later_bus :: call where
  "later_bus = \<lparr>expectedArrivalTime = Some (JStr ''2024-01-01T10:07:00Z''),
     aimedArrivalTime = Some (JStr ''2024-01-01T10:07:00Z''), realtime = True,
     frontText = Some ''Tjuvholmen via the long way round'', publicCode = ''54'',
     transportMode = Some ''bus''\<rparr>"

definition same_time_bus :: call where
  "same_time_bus = \<lparr>expectedArrivalTime = Some (JStr ''2024-01-01T10:05:00Z''),
     aimedArrivalTime = Some (JStr ''2024-01-01T10:05:00Z''), realtime = False,
     frontText = Some ''Helsfyr'', publicCode = ''37'', transportMode = Some ''bus''\<rparr>"

definition last_bus :: call where
  "last_bus = \<lparr>expectedArrivalTime = Some (JStr ''2024-01-01T10:09:00Z''),
     aimedArrivalTime = Some (JStr ''2024-01-01T10:09:00Z''), realtime = True,
     frontText = Some ''Ekeberg'', publicCode = ''74'', transportMode = Some ''bus''\<rparr>"

definition numbered :: call where
  "numbered = \<lparr>expectedArrivalTime = Some (JNum 5), aimedArrivalTime = None, realtime = False,
     frontText = Some ''Sinsen'', publicCode = ''20'', transportMode = Some ''bus''\<rparr>"

definition stop_called :: "string \<Rightarrow> stop" where
  "stop_called s = \<lparr>id_of = s, name_of = s, type_of = ''bus''\<rparr>"

definition example_api :: "string \<Rightarrow> response" where
  "example_api stop_id =
     (if stop_id = ''A'' then StopPlace (Some ''Alpha'') [garbled, no_expected, delayed_tram]
      else if stop_id = ''B'' then StopNull
      else if stop_id = ''C'' then StopPlace (Some ''Error'') [delayed_tram]
      else if stop_id = ''D'' then StopPlace (Some ''Delta'') [later_bus, same_time_bus]
      else if stop_id = ''E'' then
        StopPlace (Some ''Echo'') [later_bus, delayed_tram, last_bus, numbered]
      else RequestFailed)"

text \<open>
  A text measurement for the examples: six pixels a character, eleven pixels high, the
  box starting at the drawing position.
\<close>

definition fixed_width :: "int \<times> int \<Rightarrow> string \<Rightarrow> bbox" where
  "fixed_width xy s = (fst xy, snd xy, fst xy + 6 * int (length s), snd xy + 11)"

definition panel :: device where
  "panel = \<lparr>width = 256, height = 64\<rparr>"

text \<open>
  Two iterations of the loop one second apart, the first at 10:00:00 UTC on 2024-01-01,
  and the cache after the fetch of the first one (refresh interval 30 seconds).
\<close>

definition tick1 :: clock where
  "tick1 = \<lparr>now = 1704103200000000, fetch_utc = 1704103200000000, render_local = ''11:00:00'',
     render_utc = 1704103200000000\<rparr>"

definition tick2 :: clock where
  "tick2 = \<lparr>now = 1704103201000000, fetch_utc = 1704103201000000, render_local = ''11:00:01'',
     render_utc = 1704103201000000\<rparr>"

definition first_cycle :: cache where
  "first_cycle =
     refresh_cache fromisoformat (\<lambda>n. 0) example_api [stop_called ''A''] oslo_winter 30000000
       start tick1"

section \<open>Properties of the comparison and of the sort\<close>

text \<open>On keys that are all strings the sort does not raise and is the stable sort by the text.\<close>

lemma jless_text:
  "is_str a \<Longrightarrow> is_str b \<Longrightarrow> jless a b = Inr (text_of a < text_of b)"
  by (cases a; cases b) (simp_all add: is_str_def text_of_def)

lemma bisect_place:
  assumes "\<forall>k\<in>set ks. is_str k" and "is_str pivot" and "sorted (map text_of ks)"
    and "l \<le> r" and "r \<le> length ks"
    and "\<forall>j<l. text_of (ks ! j) \<le> text_of pivot"
    and "\<forall>j. r \<le> j \<and> j < length ks \<longrightarrow> text_of pivot < text_of (ks ! j)"
  shows "\<exists>i. bisect pivot ks l r = Inr i \<and> i \<le> length ks
          \<and> (\<forall>j<i. text_of (ks ! j) \<le> text_of pivot)
          \<and> (\<forall>j. i \<le> j \<and> j < length ks \<longrightarrow> text_of pivot < text_of (ks ! j))"
  using assms
proof (induction pivot ks l r rule: bisect.induct)
  case (1 pivot ks l r)
  show ?case
  proof (cases "l < r")
    case False
    with "1.prems" have "l = r" by simp
    with "1.prems" show ?thesis
      by (subst bisect.simps) auto
  next
    case True
    define p where "p = l + (r - l) div 2"
    from True have lp: "l \<le> p" and pr: "p < r"
      by (simp_all add: p_def)
    with "1.prems" have plen: "p < length ks" by simp
    with "1.prems" have cmp: "jless pivot (ks ! p) = Inr (text_of pivot < text_of (ks ! p))"
      by (simp add: jless_text)
    show ?thesis
    proof (cases "text_of pivot < text_of (ks ! p)")
      case lt: True
      have up: "\<forall>j. p \<le> j \<and> j < length ks \<longrightarrow> text_of pivot < text_of (ks ! j)"
      proof (intro allI impI)
        fix j assume j: "p \<le> j \<and> j < length ks"
        with "1.prems"(3) have "text_of (ks ! p) \<le> text_of (ks ! j)"
          by (simp add: sorted_iff_nth_mono)
        with lt show "text_of pivot < text_of (ks ! j)" by simp
      qed
      have "\<exists>i. bisect pivot ks l p = Inr i \<and> i \<le> length ks
          \<and> (\<forall>j<i. text_of (ks ! j) \<le> text_of pivot)
          \<and> (\<forall>j. i \<le> j \<and> j < length ks \<longrightarrow> text_of pivot < text_of (ks ! j))"
        using "1.IH"(1) [OF True p_def cmp lt] "1.prems" lp plen up by simp
      moreover have "bisect pivot ks l r = bisect pivot ks l p"
        using True cmp lt by (subst bisect.simps) (simp add: p_def Let_def)
      ultimately show ?thesis by simp
    next
      case ge: False
      have low: "\<forall>j<p + 1. text_of (ks ! j) \<le> text_of pivot"
      proof (intro allI impI)
        fix j assume j: "j < p + 1"
        with plen "1.prems"(3) have "text_of (ks ! j) \<le> text_of (ks ! p)"
          by (simp add: sorted_iff_nth_mono)
        with ge show "text_of (ks ! j) \<le> text_of pivot" by simp
      qed
      have "\<exists>i. bisect pivot ks (p + 1) r = Inr i \<and> i \<le> length ks
          \<and> (\<forall>j<i. text_of (ks ! j) \<le> text_of pivot)
          \<and> (\<forall>j. i \<le> j \<and> j < length ks \<longrightarrow> text_of pivot < text_of (ks ! j))"
        using "1.IH"(2) [OF True p_def cmp ge] "1.prems" pr low by simp
      moreover have "bisect pivot ks l r = bisect pivot ks (p + 1) r"
        using True cmp ge by (subst bisect.simps) (simp add: p_def Let_def)
      ultimately show ?thesis by simp
    qed
  qed
qed

lemma insert_place:
  fixes f :: "'a \<Rightarrow> string"
  assumes "sorted (map f front)" and "i \<le> length front"
    and "\<forall>j<i. f (front ! j) \<le> f x"
    and "\<forall>j. i \<le> j \<and> j < length front \<longrightarrow> f x < f (front ! j)"
  shows "sorted (map f (take i front @ x # drop i front))"
    and "filter (\<lambda>y. f y = k) (take i front @ x # drop i front)
         = filter (\<lambda>y. f y = k) (front @ [x])"
proof -
  have lo: "\<forall>y\<in>set (take i front). f y \<le> f x"
    using assms(2,3) by (auto simp add: in_set_conv_nth)
  have hi: "\<forall>y\<in>set (drop i front). f x < f y"
  proof
    fix y assume "y \<in> set (drop i front)"
    then obtain j where "j < length front - i" "y = front ! (i + j)"
      by (auto simp add: in_set_conv_nth)
    with assms(4) show "f x < f y" by simp
  qed
  have st: "sorted (map f (take i front))" "sorted (map f (drop i front))"
    using assms(1) by (simp_all add: sorted_map sorted_wrt_take sorted_wrt_drop)
  from lo hi st show "sorted (map f (take i front @ x # drop i front))"
    by (fastforce simp add: sorted_append)
  have "filter (\<lambda>y. f y = k) front
        = filter (\<lambda>y. f y = k) (take i front) @ filter (\<lambda>y. f y = k) (drop i front)"
    by (metis append_take_drop_id filter_append)
  moreover have "f x = k \<Longrightarrow> filter (\<lambda>y. f y = k) (drop i front) = []"
    using hi by (auto simp add: filter_empty_conv)
  ultimately show "filter (\<lambda>y. f y = k) (take i front @ x # drop i front)
         = filter (\<lambda>y. f y = k) (front @ [x])"
    by auto
qed

lemma binarysort_mset:
  "mset (snd (binarysort key front rest)) = mset front + mset rest"
proof (induction rest arbitrary: front)
  case Nil
  show ?case by simp
next
  case (Cons x rest)
  have "mset (take l front @ x # drop l front) = mset front + {#x#}" for l
    by (metis append_take_drop_id mset.simps(2) mset_append union_mset_add_mset_right add.right_neutral)
  then show ?case
    by (simp add: Cons.IH split: sum.splits)
qed

lemma binarysort_text:
  assumes "\<forall>x\<in>set (front @ rest). is_str (key x)"
    and "sorted (map (\<lambda>x. text_of (key x)) front)"
  shows "\<exists>ys. binarysort key front rest = (None, ys)
           \<and> sorted (map (\<lambda>x. text_of (key x)) ys)
           \<and> (\<forall>k. filter (\<lambda>y. text_of (key y) = k) ys
                  = filter (\<lambda>y. text_of (key y) = k) (front @ rest))"
  using assms
proof (induction rest arbitrary: front)
  case Nil
  then show ?case by simp
next
  case (Cons x rest)
  let ?f = "\<lambda>x. text_of (key x)"
  have "\<exists>i. bisect (key x) (map key front) 0 (length (map key front)) = Inr i
          \<and> i \<le> length (map key front)
          \<and> (\<forall>j<i. text_of (map key front ! j) \<le> text_of (key x))
          \<and> (\<forall>j. i \<le> j \<and> j < length (map key front) \<longrightarrow> text_of (key x) < text_of (map key front ! j))"
  proof (rule bisect_place)
    show "\<forall>k\<in>set (map key front). is_str k" using Cons.prems(1) by simp
    show "is_str (key x)" using Cons.prems(1) by simp
    show "sorted (map text_of (map key front))" using Cons.prems(2) by (simp add: comp_def)
  qed auto
  then obtain i where i: "bisect (key x) (map key front) 0 (length front) = Inr i"
      "i \<le> length front" "\<forall>j<i. ?f (front ! j) \<le> ?f x"
      "\<forall>j. i \<le> j \<and> j < length front \<longrightarrow> ?f x < ?f (front ! j)"
    by auto
  let ?front = "take i front @ x # drop i front"
  have s: "sorted (map ?f ?front)"
    and e: "\<And>k. filter (\<lambda>y. ?f y = k) ?front = filter (\<lambda>y. ?f y = k) (front @ [x])"
    using insert_place [of ?f front i x] Cons.prems(2) i(2,3,4) by blast+
  have "set ?front = set front \<union> {x}"
    by (metis Un_insert_right append_take_drop_id list.simps(15) set_append sup_bot.right_neutral)
  with Cons.prems(1) have "\<forall>y\<in>set (?front @ rest). is_str (key y)"
    by auto
  from Cons.IH [OF this s] obtain ys where ys: "binarysort key ?front rest = (None, ys)"
      "sorted (map ?f ys)"
      "\<forall>k. filter (\<lambda>y. ?f y = k) ys = filter (\<lambda>y. ?f y = k) (?front @ rest)"
    by blast
  have "filter (\<lambda>y. ?f y = k) ys = filter (\<lambda>y. ?f y = k) (front @ x # rest)" for k
  proof -
    have "filter (\<lambda>y. ?f y = k) ys = filter (\<lambda>y. ?f y = k) ?front @ filter (\<lambda>y. ?f y = k) rest"
      using ys(3) by (simp only: filter_append)
    also have "\<dots> = filter (\<lambda>y. ?f y = k) (front @ [x]) @ filter (\<lambda>y. ?f y = k) rest"
      by (simp only: e)
    also have "\<dots> = filter (\<lambda>y. ?f y = k) (front @ x # rest)"
      by simp
    finally show ?thesis .
  qed
  with ys(1,2) i(1) show ?case
    by simp
qed

lemma run_desc_text:
  assumes "\<forall>x\<in>set (prev # xs). is_str (key x)"
  shows "\<exists>n. run_desc key prev xs = Inr n \<and> n \<le> length xs
           \<and> sorted_wrt (\<lambda>a b. text_of (key b) < text_of (key a)) (prev # take n xs)"
  using assms
proof (induction xs arbitrary: prev)
  case Nil
  then show ?case by simp
next
  case (Cons x xs)
  then have cmp: "jless (key x) (key prev) = Inr (text_of (key x) < text_of (key prev))"
    by (simp add: jless_text)
  show ?case
  proof (cases "text_of (key x) < text_of (key prev)")
    case False
    with cmp show ?thesis by simp
  next
    case True
    from Cons.prems have "\<forall>y\<in>set (x # xs). is_str (key y)" by simp
    from Cons.IH [OF this] obtain n where n: "run_desc key x xs = Inr n" "n \<le> length xs"
        "sorted_wrt (\<lambda>a b. text_of (key b) < text_of (key a)) (x # take n xs)"
      by blast
    with True have "sorted_wrt (\<lambda>a b. text_of (key b) < text_of (key a)) (prev # take (Suc n) (x # xs))"
      by auto
    with cmp True n(1,2) show ?thesis
      by auto
  qed
qed

lemma run_asc_text:
  assumes "\<forall>x\<in>set (prev # xs). is_str (key x)"
  shows "\<exists>n. run_asc key prev xs = Inr n \<and> n \<le> length xs
           \<and> sorted (map (\<lambda>x. text_of (key x)) (prev # take n xs))"
  using assms
proof (induction xs arbitrary: prev)
  case Nil
  then show ?case by simp
next
  case (Cons x xs)
  then have cmp: "jless (key x) (key prev) = Inr (text_of (key x) < text_of (key prev))"
    by (simp add: jless_text)
  show ?case
  proof (cases "text_of (key x) < text_of (key prev)")
    case True
    with cmp show ?thesis by simp
  next
    case False
    from Cons.prems have "\<forall>y\<in>set (x # xs). is_str (key y)" by simp
    from Cons.IH [OF this] obtain n where n: "run_asc key x xs = Inr n" "n \<le> length xs"
        "sorted (map (\<lambda>x. text_of (key x)) (x # take n xs))"
      by blast
    with False have "sorted (map (\<lambda>x. text_of (key x)) (prev # take (Suc n) (x # xs)))"
      by auto
    with cmp False n(1,2) show ?thesis
      by auto
  qed
qed

lemma filter_rev_descending:
  fixes f :: "'a \<Rightarrow> string"
  assumes "sorted_wrt (\<lambda>a b. f b < f a) xs"
  shows "filter (\<lambda>y. f y = k) (rev xs) = filter (\<lambda>y. f y = k) xs"
proof -
  have "length (filter (\<lambda>y. f y = k) xs) \<le> 1"
    using assms
  proof (induction xs)
    case Nil
    show ?case by simp
  next
    case (Cons a xs)
    then have "f a = k \<Longrightarrow> filter (\<lambda>y. f y = k) xs = []"
      by (auto simp add: filter_empty_conv)
    with Cons show ?case by auto
  qed
  then have "rev (filter (\<lambda>y. f y = k) xs) = filter (\<lambda>y. f y = k) xs"
    by (cases "filter (\<lambda>y. f y = k) xs") (auto simp add: Suc_le_eq)
  then show ?thesis
    by (simp add: rev_filter)
qed

lemma sorted_rev_descending:
  fixes f :: "'a \<Rightarrow> string"
  assumes "sorted_wrt (\<lambda>a b. f b < f a) xs"
  shows "sorted (map f (rev xs))"
proof -
  from assms have "sorted_wrt (\<lambda>a b. f a < f b) (rev xs)"
    by (simp add: sorted_wrt_rev)
  then have "sorted_wrt (\<lambda>a b. f a \<le> f b) (rev xs)"
    by (rule sorted_wrt_mono_rel [rotated]) simp
  then show ?thesis
    by (simp add: sorted_map)
qed

lemma list_sort_mset: "mset (snd (list_sort key xs)) = mset xs"
proof (cases "length xs < 2")
  case True
  then show ?thesis by (simp add: list_sort_def)
next
  case False
  show ?thesis
  proof (cases "count_run key xs")
    case (Inl e)
    with False show ?thesis by (simp add: list_sort_def)
  next
    case (Inr p)
    obtain d n where p: "p = (d, n)" by (cases p)
    have "mset (take n xs) + mset (drop n xs) = mset xs"
      by (simp only: mset_append [symmetric] append_take_drop_id)
    then have "mset (if d then rev (take n xs) else take n xs) + mset (drop n xs) = mset xs"
      by simp
    with False Inr p show ?thesis
      by (simp add: list_sort_def binarysort_mset)
  qed
qed

lemma count_run_text:
  assumes "\<forall>x\<in>set xs. is_str (key x)" and "2 \<le> length xs"
  shows "\<exists>d n. count_run key xs = Inr (d, n) \<and> n \<le> length xs
           \<and> (if d then sorted_wrt (\<lambda>a b. text_of (key b) < text_of (key a)) (take n xs)
               else sorted (map (\<lambda>x. text_of (key x)) (take n xs)))"
proof -
  from assms(2) obtain a b rest where xs: "xs = a # b # rest"
    by (cases xs; cases "tl xs") auto
  with assms(1) have cmp: "jless (key b) (key a) = Inr (text_of (key b) < text_of (key a))"
    by (simp add: jless_text)
  from xs assms(1) have str: "\<forall>x\<in>set (b # rest). is_str (key x)"
    by simp
  show ?thesis
  proof (cases "text_of (key b) < text_of (key a)")
    case True
    from run_desc_text [OF str] obtain n where n: "run_desc key b rest = Inr n" "n \<le> length rest"
        "sorted_wrt (\<lambda>a b. text_of (key b) < text_of (key a)) (b # take n rest)"
      by blast
    with True have "sorted_wrt (\<lambda>a b. text_of (key b) < text_of (key a)) (take (n + 2) xs)"
      by (auto simp add: xs)
    with cmp True n(1,2) show ?thesis
      by (auto simp add: xs)
  next
    case False
    from run_asc_text [OF str] obtain n where n: "run_asc key b rest = Inr n" "n \<le> length rest"
        "sorted (map (\<lambda>x. text_of (key x)) (b # take n rest))"
      by blast
    with False have "sorted (map (\<lambda>x. text_of (key x)) (take (n + 2) xs))"
      by (auto simp add: xs)
    with cmp False n(1,2) show ?thesis
      by (auto simp add: xs)
  qed
qed

lemma list_sort_text:
  assumes "\<forall>x\<in>set xs. is_str (key x)"
  shows "list_sort key xs = (None, sort_key (\<lambda>x. text_of (key x)) xs)"
proof (cases "length xs < 2")
  case True
  then have "xs = [] \<or> (\<exists>x. xs = [x])"
    by (cases xs; cases "tl xs") auto
  with True show ?thesis
    by (auto simp add: list_sort_def)
next
  case False
  let ?f = "\<lambda>x. text_of (key x)"
  from False have "2 \<le> length xs" by simp
  from count_run_text [OF assms this] obtain d n where c: "count_run key xs = Inr (d, n)"
      "n \<le> length xs"
      "if d then sorted_wrt (\<lambda>a b. ?f b < ?f a) (take n xs) else sorted (map ?f (take n xs))"
    by blast
  define front where "front = (if d then rev (take n xs) else take n xs)"
  have fs: "sorted (map ?f front)"
    using c(3) by (auto simp add: front_def sorted_rev_descending)
  have ff: "filter (\<lambda>y. ?f y = k) front = filter (\<lambda>y. ?f y = k) (take n xs)" for k
    using c(3) by (auto simp add: front_def filter_rev_descending)
  have "set (front @ drop n xs) = set xs"
    by (metis append_take_drop_id front_def set_append set_rev)
  with assms have "\<forall>x\<in>set (front @ drop n xs). is_str (key x)"
    by simp
  from binarysort_text [OF this fs] obtain ys where ys: "binarysort key front (drop n xs) = (None, ys)"
      "sorted (map ?f ys)"
      "\<forall>k. filter (\<lambda>y. ?f y = k) ys = filter (\<lambda>y. ?f y = k) (front @ drop n xs)"
    by blast
  have ls: "list_sort key xs = (None, ys)"
    using False c(1) ys(1) by (simp add: list_sort_def front_def)
  have st: "filter (\<lambda>y. ?f y = k) ys = filter (\<lambda>y. ?f y = k) xs" for k
  proof -
    have "filter (\<lambda>y. ?f y = k) ys
          = filter (\<lambda>y. ?f y = k) (take n xs) @ filter (\<lambda>y. ?f y = k) (drop n xs)"
      using ys(3) by (simp add: ff)
    also have "\<dots> = filter (\<lambda>y. ?f y = k) xs"
      by (metis append_take_drop_id filter_append)
    finally show ?thesis .
  qed
  have "mset ys = mset xs"
    using list_sort_mset [of key xs] ls by simp
  moreover have "filter (\<lambda>x. ?f k = ?f x) ys = filter (\<lambda>x. ?f k = ?f x) xs" for k
    using st [of "?f k"] by (simp add: eq_commute)
  ultimately have "sort_key ?f xs = ys"
    using ys(2) by (intro properties_for_sort_key) auto
  with ls show ?thesis by simp
qed

text \<open>
  A comparison raises nothing but \<open>TypeError\<close>, and only between a string and a number;
  a list that holds both makes the sort raise.
\<close>

lemma jless_raises: "jless a b = Inl e \<Longrightarrow> e = TypeError"
  by (cases a; cases b) simp_all

lemma jless_same_kind: "jless a b = Inr c \<Longrightarrow> is_str a = is_str b"
  by (cases a; cases b) (simp_all add: is_str_def)

lemma run_desc_kind:
  "run_desc key prev xs = Inr n \<Longrightarrow>
   n \<le> length xs \<and> (\<forall>x\<in>set (take n xs). is_str (key x) = is_str (key prev))"
proof (induction xs arbitrary: prev n)
  case Nil
  then show ?case by simp
next
  case (Cons x xs)
  then show ?case
    by (fastforce split: sum.splits if_splits dest: jless_same_kind)
qed

lemma run_asc_kind:
  "run_asc key prev xs = Inr n \<Longrightarrow>
   n \<le> length xs \<and> (\<forall>x\<in>set (take n xs). is_str (key x) = is_str (key prev))"
proof (induction xs arbitrary: prev n)
  case Nil
  then show ?case by simp
next
  case (Cons x xs)
  then show ?case
    by (fastforce split: sum.splits if_splits dest: jless_same_kind)
qed

lemma run_desc_raises: "run_desc key prev xs = Inl e \<Longrightarrow> e = TypeError"
  by (induction xs arbitrary: prev) (auto split: sum.splits if_splits dest: jless_raises)

lemma run_asc_raises: "run_asc key prev xs = Inl e \<Longrightarrow> e = TypeError"
  by (induction xs arbitrary: prev) (auto split: sum.splits if_splits dest: jless_raises)

lemma count_run_raises: "count_run key xs = Inl e \<Longrightarrow> e = TypeError"
  by (cases "(key, xs)" rule: count_run.cases)
     (auto split: sum.splits if_splits dest: jless_raises run_desc_raises run_asc_raises)

lemma count_run_kind:
  assumes "count_run key (a # b # rest) = Inr (d, n)"
  shows "2 \<le> n \<and> n \<le> length (a # b # rest)
         \<and> (\<forall>x\<in>set (take n (a # b # rest)). is_str (key x) = is_str (key a))"
proof -
  from assms obtain c where c: "jless (key b) (key a) = Inr c"
    by (cases "jless (key b) (key a)") auto
  then have k: "is_str (key b) = is_str (key a)"
    by (rule jless_same_kind)
  have "\<exists>m. n = m + 2 \<and> m \<le> length rest
          \<and> (\<forall>x\<in>set (take m rest). is_str (key x) = is_str (key b))"
  proof (cases c)
    case True
    with assms c obtain m where "run_desc key b rest = Inr m" "n = m + 2"
      by (cases "run_desc key b rest") auto
    with run_desc_kind [of key b rest m] show ?thesis by blast
  next
    case False
    with assms c obtain m where "run_asc key b rest = Inr m" "n = m + 2"
      by (cases "run_asc key b rest") auto
    with run_asc_kind [of key b rest m] show ?thesis by blast
  qed
  then obtain m where m: "n = m + 2" "m \<le> length rest"
      "\<forall>x\<in>set (take m rest). is_str (key x) = is_str (key b)"
    by blast
  have "take (m + 2) (a # b # rest) = a # b # take m rest"
    by simp
  with k m show ?thesis
    by simp
qed

lemma bisect_raises: "bisect pivot ks l r = Inl e \<Longrightarrow> e = TypeError"
proof (induction pivot ks l r rule: bisect.induct)
  case (1 pivot ks l r)
  show ?case
  proof (cases "l < r")
    case False
    with "1.prems" show ?thesis
      by (subst (asm) bisect.simps) simp
  next
    case True
    define p where "p = l + (r - l) div 2"
    show ?thesis
    proof (cases "jless pivot (ks ! p)")
      case (Inl e')
      with True "1.prems" have "e = e'"
        by (subst (asm) bisect.simps) (simp add: p_def Let_def)
      with Inl show ?thesis
        by (simp add: jless_raises)
    next
      case (Inr c)
      show ?thesis
      proof (cases c)
        case True
        with \<open>l < r\<close> Inr "1.prems" have "bisect pivot ks l p = Inl e"
          by (subst (asm) bisect.simps) (simp add: p_def Let_def)
        with "1.IH"(1) [OF \<open>l < r\<close> p_def Inr True] show ?thesis .
      next
        case False
        with \<open>l < r\<close> Inr "1.prems" have "bisect pivot ks (p + 1) r = Inl e"
          by (subst (asm) bisect.simps) (simp add: p_def Let_def)
        with "1.IH"(2) [OF \<open>l < r\<close> p_def Inr False] show ?thesis .
      qed
    qed
  qed
qed

lemma bisect_kind:
  assumes "bisect pivot ks l r = Inr i" and "l < r"
  shows "is_str pivot = is_str (ks ! (l + (r - l) div 2))"
proof -
  from assms obtain c where "jless pivot (ks ! (l + (r - l) div 2)) = Inr c"
    by (subst (asm) bisect.simps) (auto simp add: Let_def split: sum.splits)
  then show ?thesis
    by (rule jless_same_kind)
qed

lemma binarysort_raises: "fst (binarysort key front rest) = Some e \<Longrightarrow> e = TypeError"
  by (induction rest arbitrary: front) (auto split: sum.splits dest: bisect_raises)

lemma binarysort_kind:
  assumes "fst (binarysort key front rest) = None" and "front \<noteq> []"
    and "\<forall>x\<in>set front. is_str (key x) = s"
  shows "\<forall>x\<in>set rest. is_str (key x) = s"
  using assms
proof (induction rest arbitrary: front)
  case Nil
  show ?case by simp
next
  case (Cons x rest)
  from Cons.prems(1) obtain i where i: "bisect (key x) (map key front) 0 (length front) = Inr i"
      "fst (binarysort key (take i front @ x # drop i front) rest) = None"
    by (auto split: sum.splits)
  from Cons.prems(2) have pos: "0 < length front" by simp
  then have "(length front - 0) div 2 < length front" by simp
  with bisect_kind [OF i(1) pos] Cons.prems(3) have x: "is_str (key x) = s"
    by simp
  have "set (take i front @ x # drop i front) = insert x (set front)"
    by (metis append_take_drop_id list.simps(15) set_append Un_insert_right)
  with x Cons.prems(3) have "\<forall>y\<in>set (take i front @ x # drop i front). is_str (key y) = s"
    by simp
  from Cons.IH [OF i(2) _ this] x show ?case
    by simp
qed

lemma list_sort_raises: "fst (list_sort key xs) = Some e \<Longrightarrow> e = TypeError"
proof (cases "length xs < 2")
  case True
  assume "fst (list_sort key xs) = Some e"
  with True show ?thesis by (simp add: list_sort_def)
next
  case False
  assume r: "fst (list_sort key xs) = Some e"
  show ?thesis
  proof (cases "count_run key xs")
    case (Inl e')
    with False r have "e = e'" by (simp add: list_sort_def)
    with Inl show ?thesis by (simp add: count_run_raises)
  next
    case (Inr p)
    obtain d n where "p = (d, n)" by (cases p)
    with False r Inr
    have "fst (binarysort key (if d then rev (take n xs) else take n xs) (drop n xs)) = Some e"
      by (simp add: list_sort_def)
    then show ?thesis by (rule binarysort_raises)
  qed
qed

lemma list_sort_mixed:
  assumes "x \<in> set xs" and "is_str (key x)" and "y \<in> set xs" and "\<not> is_str (key y)"
  shows "fst (list_sort key xs) = Some TypeError"
proof (rule ccontr)
  assume "fst (list_sort key xs) \<noteq> Some TypeError"
  with list_sort_raises [of key xs] have none: "fst (list_sort key xs) = None"
    by (cases "fst (list_sort key xs)") auto
  from assms have "x \<noteq> y" by auto
  with assms(1,3) obtain a b rest where xs: "xs = a # b # rest"
    by (cases xs; cases "tl xs") auto
  have "\<not> length xs < 2"
    by (simp add: xs)
  with none obtain d n where c0: "count_run key xs = Inr (d, n)"
    by (cases "count_run key xs") (auto simp add: list_sort_def)
  then have c: "count_run key (a # b # rest) = Inr (d, n)"
    by (simp only: xs)
  define front where "front = (if d then rev (take n xs) else take n xs)"
  from count_run_kind [OF c] have n: "2 \<le> n" "n \<le> length xs"
      and k: "\<forall>z\<in>set (take n xs). is_str (key z) = is_str (key a)"
    by (simp_all add: xs)
  from n have ne: "front \<noteq> []"
    by (auto simp add: front_def xs)
  from k have kf: "\<forall>z\<in>set front. is_str (key z) = is_str (key a)"
    by (simp add: front_def)
  from none c0 \<open>\<not> length xs < 2\<close> have "fst (binarysort key front (drop n xs)) = None"
    by (simp add: list_sort_def front_def)
  from binarysort_kind [OF this ne kf]
  have "\<forall>z\<in>set (drop n xs). is_str (key z) = is_str (key a)" .
  moreover have "set xs = set (take n xs) \<union> set (drop n xs)"
    by (simp only: set_append [symmetric] append_take_drop_id)
  ultimately have "\<forall>z\<in>set xs. is_str (key z) = is_str (key a)"
    using k by blast
  with assms show False by auto
qed

section \<open>Properties of the time and delay calculation\<close>

lemma fallback_cases:
  "fallback (s0, u0) =
     (case (s0, u0) of
        (None, None) \<Rightarrow> (None, None)
      | (Some a, None) \<Rightarrow> (Some a, Some a)
      | (None, Some b) \<Rightarrow> (Some b, Some b)
      | (Some a, Some b) \<Rightarrow> (Some a, Some b))"
  by (simp add: fallback_def Let_def split: option.splits)






text \<open>
  Claim C5. With \<open>(s0, u0)\<close> the scheduled and updated minutes as the \<open>try\<close> block leaves
  them and \<open>(s, u)\<close> the values the row is drawn with: whenever one of the two was absent
  the two are equal afterwards, a value that was present is kept, and afterwards either
  both are present or both are absent.
\<close>

theorem fallback_symmetry:
  assumes "time_calc parse now_utc dep = (s0, u0)"
      and "row_minutes parse now_utc dep = (s, u)"
  shows "(s0 = None \<longrightarrow> s = u) \<and> (u0 = None \<longrightarrow> u = s)
         \<and> (s0 \<noteq> None \<longrightarrow> s = s0) \<and> (u0 \<noteq> None \<longrightarrow> u = u0)
         \<and> ((s = None) = (u = None))"
  using assms by (auto simp add: row_minutes_def fallback_cases split: option.splits)

lemma only_expected_time_calc:
  "time_calc fromisoformat 1704103200000000 only_expected = (None, Some 5)"
  by code_simp

lemma only_expected_row_minutes:
  "row_minutes fromisoformat 1704103200000000 only_expected = (Some 5, Some 5)"
  by code_simp

lemma no_expected_time_calc:
  "time_calc fromisoformat 1704103200000000 no_expected = (Some 0, None)"
  by code_simp

lemma no_expected_row_minutes:
  "row_minutes fromisoformat 1704103200000000 no_expected = (Some 0, Some 0)"
  by code_simp

theorem fallback_symmetry_witness:
  "time_calc fromisoformat 1704103200000000 only_expected = (None, Some 5)
   \<and> row_minutes fromisoformat 1704103200000000 only_expected = (Some 5, Some 5)
   \<and> time_calc fromisoformat 1704103200000000 no_expected = (Some 0, None)
   \<and> row_minutes fromisoformat 1704103200000000 no_expected = (Some 0, Some 0)"
  using fallback_symmetry [OF only_expected_time_calc only_expected_row_minutes]
    fallback_symmetry [OF no_expected_time_calc no_expected_row_minutes]
    only_expected_time_calc only_expected_row_minutes
    no_expected_time_calc no_expected_row_minutes
  by simp



text \<open>
  Claim C3, as amended. The delay test is true exactly when both strings are present and
  not empty, both parse, both carry a UTC offset or both carry none, and the expected
  value is strictly later than the aimed one. In every other case it is false: an absent
  or empty string, a string that does not parse, one value with an offset and the other
  without. The result is a truth value in every case, so no error leaves the test.
\<close>

theorem delay_determination:
  "is_delayed parse aimed expected =
     (\<exists>a e. aimed = Some (JStr a) \<and> expected = Some (JStr e) \<and> a \<noteq> [] \<and> e \<noteq> [] \<and>
        ((\<exists>x y. parse (replace_Z a) = Some (Naive x) \<and> parse (replace_Z e) = Some (Naive y) \<and> x < y)
         \<or> (\<exists>x y. parse (replace_Z a) = Some (Aware x) \<and> parse (replace_Z e) = Some (Aware y) \<and> x < y)))"
proof (cases "\<exists>a e. aimed = Some (JStr a) \<and> expected = Some (JStr e) \<and> a \<noteq> [] \<and> e \<noteq> []")
  case False
  then show ?thesis
    by (auto simp add: is_delayed_def delay_test_def truthy_def
        split: option.splits jvalue.splits)
next
  case True
  then obtain a e where ae: "aimed = Some (JStr a)" "expected = Some (JStr e)" "a \<noteq> []" "e \<noteq> []"
    by blast
  show ?thesis
  proof (cases "parse (replace_Z a)")
    case None
    with ae show ?thesis by (simp add: is_delayed_def delay_test_def truthy_def)
  next
    case (Some t_aim)
    show ?thesis
    proof (cases "parse (replace_Z e)")
      case None
      with ae Some show ?thesis by (simp add: is_delayed_def delay_test_def truthy_def)
    next
      case (Some t_exp)
      with ae \<open>parse (replace_Z a) = Some t_aim\<close> show ?thesis
        by (cases t_aim; cases t_exp) (simp_all add: is_delayed_def delay_test_def truthy_def)
    qed
  qed
qed

theorem delay_determination_witness:
  "is_delayed fromisoformat (Some (JStr ''2024-01-01T10:00:00Z'')) (Some (JStr ''2024-01-01T10:05:00Z''))
   \<and> is_delayed fromisoformat (Some (JStr ''2024-01-01T10:00:00'')) (Some (JStr ''2024-01-01T10:05:00''))"
proof -
  have "fromisoformat (replace_Z ''2024-01-01T10:00:00Z'') = Some (Aware 1704103200000000)"
       "fromisoformat (replace_Z ''2024-01-01T10:05:00Z'') = Some (Aware 1704103500000000)"
       "fromisoformat (replace_Z ''2024-01-01T10:00:00'') = Some (Naive 1704103200000000)"
       "fromisoformat (replace_Z ''2024-01-01T10:05:00'') = Some (Naive 1704103500000000)"
    by code_simp+
  then show ?thesis
    using delay_determination [of fromisoformat "Some (JStr ''2024-01-01T10:00:00Z'')"
            "Some (JStr ''2024-01-01T10:05:00Z'')"]
          delay_determination [of fromisoformat "Some (JStr ''2024-01-01T10:00:00'')"
            "Some (JStr ''2024-01-01T10:05:00'')"]
    by simp
qed

text \<open>
  Claim C3 as stated fails: an aimed time without an offset and an expected time with
  one both parse, the expected one is four years later, and the test is false, because
  comparing the two raises \<open>TypeError\<close> inside the \<open>try\<close>.
\<close>

theorem delay_mixed_counterexample:
  "fromisoformat (replace_Z ''2020-01-01T10:00:00'') = Some (Naive 1577872800000000)
   \<and> fromisoformat (replace_Z ''2024-01-01T10:05:00Z'') = Some (Aware 1704103500000000)
   \<and> spec_isDelayed fromisoformat (\<lambda>n. 0)
         (Some (JStr ''2020-01-01T10:00:00'')) (Some (JStr ''2024-01-01T10:05:00Z''))
   \<and> \<not> is_delayed fromisoformat
         (Some (JStr ''2020-01-01T10:00:00'')) (Some (JStr ''2024-01-01T10:05:00Z''))"
  by code_simp

section \<open>Properties of the aggregation\<close>

lemma visit_stop_skip:
  "fst (fetch_departures api (id_of s)) = ''Not Found'' \<or> fst (fetch_departures api (id_of s)) = ''Error''
   \<Longrightarrow> visit_stop parse sysoff api tz now_utc acc s = acc"
  by (auto simp add: visit_stop_def split: prod.splits)

lemma get_all_skip:
  assumes "fst (fetch_departures api (id_of s)) = ''Not Found'' \<or> fst (fetch_departures api (id_of s)) = ''Error''"
  shows "get_all_departures parse sysoff api (xs @ s # ys) tz now_utc
         = get_all_departures parse sysoff api (xs @ ys) tz now_utc"
  by (simp add: get_all_departures_def visit_stop_skip [OF assms])

lemma foldl_visit_deps:
  "fst (foldl (visit_stop parse sysoff api tz now_utc) acc stops) = fst acc @ surviving_calls api stops"
proof (induction stops arbitrary: acc)
  case Nil
  then show ?case by (simp add: surviving_calls_def)
next
  case (Cons s stops)
  show ?case
    by (simp add: Cons.IH) (auto simp add: visit_stop_def surviving_calls_def Let_def split: prod.splits)
qed

lemma get_all_deps:
  "fst (get_all_departures parse sysoff api stops tz now_utc)
   = snd (list_sort sort_field (surviving_calls api stops))"
  using foldl_visit_deps [of parse sysoff api tz now_utc "([], [])" stops]
  by (auto simp add: get_all_departures_def split: prod.splits)

lemma fetch_truthy:
  "c \<in> set (snd (fetch_departures api sid)) \<Longrightarrow> truthy (expectedArrivalTime c)"
  by (auto simp add: fetch_departures_def Let_def split: response.splits)

lemma surviving_truthy:
  "c \<in> set (surviving_calls api stops) \<Longrightarrow> truthy (expectedArrivalTime c)"
  by (auto simp add: surviving_calls_def dest: fetch_truthy)

lemma fetch_without_absent:
  "fetch_departures (\<lambda>sid. without_absent (api sid)) stop_id = fetch_departures api stop_id"
proof -
  have "filter (\<lambda>c. truthy (expectedArrivalTime c)) (filter (\<lambda>c. expectedArrivalTime c \<noteq> None) cs)
        = filter (\<lambda>c. truthy (expectedArrivalTime c)) cs" for cs :: "call list"
    by (induction cs) (auto simp add: truthy_def)
  then show ?thesis
    by (simp add: fetch_departures_def without_absent_def Let_def split: response.splits)
qed

lemma get_all_cong:
  assumes "\<And>sid. fetch_departures api1 sid = fetch_departures api2 sid"
  shows "get_all_departures parse sysoff api1 stops tz now_utc
         = get_all_departures parse sysoff api2 stops tz now_utc"
proof -
  have "visit_stop parse sysoff api1 tz now_utc = visit_stop parse sysoff api2 tz now_utc"
    by (intro ext) (simp add: visit_stop_def assms)
  then show ?thesis by (simp add: get_all_departures_def)
qed

lemma surviving_key:
  assumes "d \<in> set (surviving_calls api stops)"
  shows "truthy (expectedArrivalTime d) \<and> expectedArrivalTime d = Some (sort_field d)"
proof -
  from surviving_truthy [OF assms] have t: "truthy (expectedArrivalTime d)" .
  then obtain v where "expectedArrivalTime d = Some v"
    by (cases "expectedArrivalTime d") (auto simp add: truthy_def)
  with t show ?thesis
    by (simp add: sort_field_def)
qed

text \<open>
  Claim C1, as amended. The departures the aggregation returns are what the sort of line
  194 leaves of the surviving calls of all stops, concatenated in stop order, and in
  every case a permutation of them: the function returns whether or not the sort raises.
  When the timestamp of every surviving call is a string, the sort does not raise and the
  result is the stable sort ascending by that string, compared by code point: it is
  sorted by the text, and the calls with one and the same text stand in the order of
  the concatenation, so ties keep the stop-processing order. When a string and a number
  are both among the timestamps, the sort raises \<open>TypeError\<close>. The sort key of a
  surviving call is its timestamp value itself, which is never parsed.
\<close>

theorem departures_sorted_by_text:
  "fst (get_all_departures parse sysoff api stops tz now_utc)
     = snd (list_sort sort_field (surviving_calls api stops))
   \<and> mset (fst (get_all_departures parse sysoff api stops tz now_utc))
       = mset (surviving_calls api stops)
   \<and> set (fst (get_all_departures parse sysoff api stops tz now_utc)) = set (surviving_calls api stops)
   \<and> length (fst (get_all_departures parse sysoff api stops tz now_utc))
       = length (surviving_calls api stops)
   \<and> ((\<forall>d\<in>set (surviving_calls api stops). is_str (sort_field d)) \<longrightarrow>
        fst (list_sort sort_field (surviving_calls api stops)) = None
        \<and> fst (get_all_departures parse sysoff api stops tz now_utc)
            = sort_key sort_text (surviving_calls api stops)
        \<and> sorted (map sort_text (fst (get_all_departures parse sysoff api stops tz now_utc)))
        \<and> filter (\<lambda>d. sort_text d = k) (fst (get_all_departures parse sysoff api stops tz now_utc))
            = filter (\<lambda>d. sort_text d = k) (surviving_calls api stops))
   \<and> (x \<in> set (surviving_calls api stops) \<and> is_str (sort_field x)
        \<and> y \<in> set (surviving_calls api stops) \<and> \<not> is_str (sort_field y) \<longrightarrow>
        fst (list_sort sort_field (surviving_calls api stops)) = Some TypeError)
   \<and> (d \<in> set (surviving_calls api stops) \<longrightarrow>
        truthy (expectedArrivalTime d) \<and> expectedArrivalTime d = Some (sort_field d)
        \<and> (is_str (sort_field d) \<longrightarrow> sort_text d \<noteq> []))"
proof -
  let ?deps = "fst (get_all_departures parse sysoff api stops tz now_utc)"
  let ?calls = "surviving_calls api stops"
  have m: "mset ?deps = mset ?calls"
    by (simp add: get_all_deps list_sort_mset)
  then have sl: "set ?deps = set ?calls" "length ?deps = length ?calls"
    by (auto dest: mset_eq_setD mset_eq_length)
  have str: "fst (list_sort sort_field ?calls) = None
        \<and> ?deps = sort_key sort_text ?calls
        \<and> sorted (map sort_text ?deps)
        \<and> filter (\<lambda>d. sort_text d = k) ?deps = filter (\<lambda>d. sort_text d = k) ?calls"
    if a: "\<forall>d\<in>set ?calls. is_str (sort_field d)"
  proof -
    from list_sort_text [OF a]
    have l: "list_sort sort_field ?calls = (None, sort_key (\<lambda>d. text_of (sort_field d)) ?calls)" .
    have "(\<lambda>d. text_of (sort_field d)) = sort_text"
      by (simp add: sort_text_def fun_eq_iff)
    with l have "list_sort sort_field ?calls = (None, sort_key sort_text ?calls)"
      by simp
    then show ?thesis
      by (simp add: get_all_deps sort_key_stable)
  qed
  have key: "truthy (expectedArrivalTime d) \<and> expectedArrivalTime d = Some (sort_field d)
        \<and> (is_str (sort_field d) \<longrightarrow> sort_text d \<noteq> [])"
    if d: "d \<in> set ?calls"
  proof -
    from surviving_key [OF d] have t: "truthy (expectedArrivalTime d)"
        "expectedArrivalTime d = Some (sort_field d)"
      by blast+
    then have "is_str (sort_field d) \<longrightarrow> sort_text d \<noteq> []"
      by (cases "sort_field d") (auto simp add: truthy_def sort_text_def text_of_def is_str_def)
    with t show ?thesis by blast
  qed
  show ?thesis
    using get_all_deps [of parse sysoff api stops tz now_utc] m sl str key
      list_sort_mixed [of x ?calls sort_field y]
    by blast
qed

lemma ex_get_all_ABD:
  "get_all_departures fromisoformat (\<lambda>n. 0) example_api
     [stop_called ''A'', stop_called ''B'', stop_called ''D''] oslo_winter 1704103200000000
   = ([delayed_tram, same_time_bus, later_bus, garbled], [''Alpha 5m 11:05'', ''Delta 5m 11:05''])"
  by code_simp

lemma ex_surviving_ABD:
  "surviving_calls example_api [stop_called ''A'', stop_called ''B'', stop_called ''D'']
   = [garbled, delayed_tram, later_bus, same_time_bus]"
  by code_simp

lemma ex_surviving_E:
  "surviving_calls example_api [stop_called ''E''] = [later_bus, delayed_tram, last_bus, numbered]"
  by code_simp

theorem departures_sorted_by_text_witness:
  "surviving_calls example_api [stop_called ''A'', stop_called ''B'', stop_called ''D'']
     = [garbled, delayed_tram, later_bus, same_time_bus]
   \<and> fst (get_all_departures fromisoformat (\<lambda>n. 0) example_api
       [stop_called ''A'', stop_called ''B'', stop_called ''D''] oslo_winter 1704103200000000)
     = [delayed_tram, same_time_bus, later_bus, garbled]
   \<and> sort_text delayed_tram = sort_text same_time_bus
   \<and> sort_text garbled = ''zzz''
   \<and> surviving_calls example_api [stop_called ''E''] = [later_bus, delayed_tram, last_bus, numbered]
   \<and> fst (list_sort sort_field [later_bus, delayed_tram, last_bus, numbered]) = Some TypeError"
proof -
  have s: "sort_key sort_text [garbled, delayed_tram, later_bus, same_time_bus]
           = [delayed_tram, same_time_bus, later_bus, garbled]"
    by code_simp
  have k: "sort_text garbled = ''zzz''" "sort_text delayed_tram = sort_text same_time_bus"
    by code_simp+
  have i: "is_str (sort_field garbled)" "is_str (sort_field delayed_tram)"
      "is_str (sort_field later_bus)" "is_str (sort_field same_time_bus)"
      "\<not> is_str (sort_field numbered)"
    by code_simp+
  have all: "\<forall>d\<in>set (surviving_calls example_api
      [stop_called ''A'', stop_called ''B'', stop_called ''D'']). is_str (sort_field d)"
    by (simp add: ex_surviving_ABD i)
  from departures_sorted_by_text [of fromisoformat "\<lambda>n. 0" example_api
        "[stop_called ''A'', stop_called ''B'', stop_called ''D'']" oslo_winter 1704103200000000
        "''zzz''" garbled garbled garbled] all
  have "fst (get_all_departures fromisoformat (\<lambda>n. 0) example_api
       [stop_called ''A'', stop_called ''B'', stop_called ''D''] oslo_winter 1704103200000000)
     = sort_key sort_text
         (surviving_calls example_api [stop_called ''A'', stop_called ''B'', stop_called ''D''])"
    by blast
  then have a: "fst (get_all_departures fromisoformat (\<lambda>n. 0) example_api
       [stop_called ''A'', stop_called ''B'', stop_called ''D''] oslo_winter 1704103200000000)
     = [delayed_tram, same_time_bus, later_bus, garbled]"
    by (simp only: ex_surviving_ABD s)
  have mem: "later_bus \<in> set (surviving_calls example_api [stop_called ''E''])"
      "numbered \<in> set (surviving_calls example_api [stop_called ''E''])"
    by (simp_all add: ex_surviving_E)
  from departures_sorted_by_text [of fromisoformat "\<lambda>n. 0" example_api
        "[stop_called ''E'']" oslo_winter 1704103200000000 "''zzz''" later_bus numbered later_bus]
    mem i
  have "fst (list_sort sort_field (surviving_calls example_api [stop_called ''E''])) = Some TypeError"
    by blast
  then have b: "fst (list_sort sort_field [later_bus, delayed_tram, last_bus, numbered])
      = Some TypeError"
    by (simp only: ex_surviving_E)
  from a b k ex_surviving_ABD ex_surviving_E show ?thesis
    by (simp only: simp_thms)
qed

text \<open>
  Claim C1 as stated fails twice. A timestamp that does not parse does not sort as the
  empty string: the call with the text \<open>zzz\<close> is returned after the call with a proper
  timestamp; sorted with the key of the specification it would come first. And a sort
  that fails does not leave the concatenation order: with the timestamps 10:07, 10:05,
  10:09 and the number 5 the sort raises \<open>TypeError\<close> when it reaches the number, after
  it has put the first two calls in order, and the function returns the list so
  reordered.
\<close>

theorem unparseable_sorts_last_counterexample:
  "fromisoformat (replace_Z ''zzz'') = None
   \<and> surviving_calls example_api [stop_called ''A''] = [garbled, delayed_tram]
   \<and> sort_key (spec_sort_field fromisoformat) [garbled, delayed_tram] = [garbled, delayed_tram]
   \<and> fst (get_all_departures fromisoformat (\<lambda>n. 0) example_api [stop_called ''A'']
         oslo_winter 1704103200000000) = [delayed_tram, garbled]
   \<and> surviving_calls example_api [stop_called ''E''] = [later_bus, delayed_tram, last_bus, numbered]
   \<and> list_sort sort_field [later_bus, delayed_tram, last_bus, numbered]
       = (Some TypeError, [delayed_tram, later_bus, last_bus, numbered])
   \<and> get_all_departures fromisoformat (\<lambda>n. 0) example_api [stop_called ''E'']
         oslo_winter 1704103200000000
       = ([delayed_tram, later_bus, last_bus, numbered], [''Echo''])"
  by code_simp

text \<open>
  Claim C6. A stop whose query fails (a failed request, GraphQL errors, a null stop) is
  reported as \<open>Error\<close> or \<open>Not Found\<close> with no calls, and the aggregation returns
  what it returns when that stop is not configured at all: the stop adds nothing to the
  departures or to the stop summaries, and the stops before and after it are processed
  as they are without it, in their order.
\<close>

theorem failed_stop_contributes_nothing:
  assumes "api (id_of s) = RequestFailed \<or> api (id_of s) = GraphQLErrors \<or> api (id_of s) = StopNull"
  shows "(fetch_departures api (id_of s) = (''Error'', [])
          \<or> fetch_departures api (id_of s) = (''Not Found'', []))
         \<and> get_all_departures parse sysoff api (xs @ s # ys) tz now_utc
             = get_all_departures parse sysoff api (xs @ ys) tz now_utc"
proof -
  from assms have f: "fetch_departures api (id_of s) = (''Error'', [])
          \<or> fetch_departures api (id_of s) = (''Not Found'', [])"
    by (auto simp add: fetch_departures_def)
  then have "fst (fetch_departures api (id_of s)) = ''Not Found''
             \<or> fst (fetch_departures api (id_of s)) = ''Error''"
    by auto
  from get_all_skip [OF this] f show ?thesis by simp
qed

lemma ex_get_all_AD:
  "get_all_departures fromisoformat (\<lambda>n. 0) example_api
     [stop_called ''A'', stop_called ''D''] oslo_winter 1704103200000000
   = ([delayed_tram, same_time_bus, later_bus, garbled], [''Alpha 5m 11:05'', ''Delta 5m 11:05''])"
  by code_simp

theorem failed_stop_contributes_nothing_witness:
  "example_api ''B'' = StopNull
   \<and> fetch_departures example_api ''B'' = (''Not Found'', [])
   \<and> get_all_departures fromisoformat (\<lambda>n. 0) example_api
       [stop_called ''A'', stop_called ''B'', stop_called ''D''] oslo_winter 1704103200000000
     = ([delayed_tram, same_time_bus, later_bus, garbled], [''Alpha 5m 11:05'', ''Delta 5m 11:05''])"
proof -
  have b: "example_api (id_of (stop_called ''B'')) = StopNull"
    by code_simp
  then have h: "example_api (id_of (stop_called ''B'')) = RequestFailed
      \<or> example_api (id_of (stop_called ''B'')) = GraphQLErrors
      \<or> example_api (id_of (stop_called ''B'')) = StopNull"
    by simp
  have i: "id_of (stop_called ''B'') = ''B''"
    by (simp add: stop_called_def)
  have f: "fetch_departures example_api ''B'' = (''Not Found'', [])"
    by code_simp
  from failed_stop_contributes_nothing [where api = example_api and s = "stop_called ''B''"
      and parse = fromisoformat and sysoff = "\<lambda>n. 0" and xs = "[stop_called ''A'']"
      and ys = "[stop_called ''D'']" and tz = oslo_winter and now_utc = 1704103200000000, OF h]
  have "get_all_departures fromisoformat (\<lambda>n. 0) example_api
          ([stop_called ''A''] @ stop_called ''B'' # [stop_called ''D'']) oslo_winter 1704103200000000
        = get_all_departures fromisoformat (\<lambda>n. 0) example_api
          ([stop_called ''A''] @ [stop_called ''D'']) oslo_winter 1704103200000000"
    by (rule conjunct2)
  then have "get_all_departures fromisoformat (\<lambda>n. 0) example_api
          [stop_called ''A'', stop_called ''B'', stop_called ''D''] oslo_winter 1704103200000000
        = get_all_departures fromisoformat (\<lambda>n. 0) example_api
          [stop_called ''A'', stop_called ''D''] oslo_winter 1704103200000000"
    by (simp only: append.simps)
  with b f ex_get_all_AD show ?thesis
    unfolding i by (simp only: simp_thms)
qed

text \<open>
  Claim C7. The aggregation returns the same departures and the same stop summaries
  (the next-arrival labels included) when the calls without an expected arrival time
  are removed from every response; no returned departure lacks an expected arrival
  time, and no call without one is among the calls \<open>fetch_departures\<close> returns.
\<close>

theorem absent_expected_discarded:
  "get_all_departures parse sysoff (\<lambda>sid. without_absent (api sid)) stops tz now_utc
     = get_all_departures parse sysoff api stops tz now_utc
   \<and> (d \<in> set (fst (get_all_departures parse sysoff api stops tz now_utc)) \<longrightarrow>
        expectedArrivalTime d \<noteq> None)
   \<and> (expectedArrivalTime c = None \<longrightarrow> c \<notin> set (snd (fetch_departures api stop_id)))"
proof (intro conjI impI)
  show "get_all_departures parse sysoff (\<lambda>sid. without_absent (api sid)) stops tz now_utc
     = get_all_departures parse sysoff api stops tz now_utc"
    by (rule get_all_cong) (rule fetch_without_absent)
next
  assume "d \<in> set (fst (get_all_departures parse sysoff api stops tz now_utc))"
  moreover have "mset (fst (get_all_departures parse sysoff api stops tz now_utc))
      = mset (surviving_calls api stops)"
    by (simp add: get_all_deps list_sort_mset)
  ultimately have "d \<in> set (surviving_calls api stops)"
    by (auto dest: mset_eq_setD)
  from surviving_truthy [OF this] show "expectedArrivalTime d \<noteq> None"
    by (auto simp add: truthy_def split: option.splits)
next
  assume "expectedArrivalTime c = None"
  then show "c \<notin> set (snd (fetch_departures api stop_id))"
    using fetch_truthy [of c api stop_id] by (auto simp add: truthy_def)
qed

lemma ex_get_all_A:
  "get_all_departures fromisoformat (\<lambda>n. 0) example_api [stop_called ''A'']
     oslo_winter 1704103200000000
   = ([delayed_tram, garbled], [''Alpha 5m 11:05''])"
  by code_simp

theorem absent_expected_discarded_witness:
  "example_api ''A'' = StopPlace (Some ''Alpha'') [garbled, no_expected, delayed_tram]
   \<and> expectedArrivalTime no_expected = None
   \<and> fetch_departures example_api ''A'' = (''Alpha'', [garbled, delayed_tram])
   \<and> get_all_departures fromisoformat (\<lambda>n. 0) (\<lambda>sid. without_absent (example_api sid))
        [stop_called ''A''] oslo_winter 1704103200000000
     = ([delayed_tram, garbled], [''Alpha 5m 11:05''])"
proof -
  have a: "example_api ''A'' = StopPlace (Some ''Alpha'') [garbled, no_expected, delayed_tram]"
    by code_simp
  have n: "expectedArrivalTime no_expected = None"
    by code_simp
  have f: "fetch_departures example_api ''A'' = (''Alpha'', [garbled, delayed_tram])"
    by code_simp
  from absent_expected_discarded [of fromisoformat "\<lambda>n. 0" example_api "[stop_called ''A'']"
      oslo_winter 1704103200000000 delayed_tram no_expected "''A''"]
  have "get_all_departures fromisoformat (\<lambda>n. 0) (\<lambda>sid. without_absent (example_api sid))
        [stop_called ''A''] oslo_winter 1704103200000000
      = get_all_departures fromisoformat (\<lambda>n. 0) example_api
        [stop_called ''A''] oslo_winter 1704103200000000"
    by (rule conjunct1)
  with a n f ex_get_all_A show ?thesis
    by (simp only: simp_thms)
qed

text \<open>
  Claim C9. A stop that is found, whatever calls it carries, is skipped when its name is
  the string \<open>Not Found\<close> or \<open>Error\<close>: the aggregation returns what it returns
  without that stop.
\<close>

theorem sentinel_name_skipped:
  assumes "api (id_of s) = StopPlace (Some nm) calls"
      and "nm = ''Not Found'' \<or> nm = ''Error''"
  shows "get_all_departures parse sysoff api (xs @ s # ys) tz now_utc
         = get_all_departures parse sysoff api (xs @ ys) tz now_utc"
proof -
  from assms have "fst (fetch_departures api (id_of s)) = ''Not Found''
             \<or> fst (fetch_departures api (id_of s)) = ''Error''"
    by (auto simp add: fetch_departures_def)
  from get_all_skip [OF this] show ?thesis .
qed

theorem sentinel_name_skipped_witness:
  "example_api ''C'' = StopPlace (Some ''Error'') [delayed_tram]
   \<and> fetch_departures example_api ''C'' = (''Error'', [delayed_tram])
   \<and> get_all_departures fromisoformat (\<lambda>n. 0) example_api
       [stop_called ''A'', stop_called ''C'', stop_called ''D''] oslo_winter 1704103200000000
     = ([delayed_tram, same_time_bus, later_bus, garbled], [''Alpha 5m 11:05'', ''Delta 5m 11:05''])"
proof -
  have c: "example_api (id_of (stop_called ''C'')) = StopPlace (Some ''Error'') [delayed_tram]"
    by code_simp
  have i: "id_of (stop_called ''C'') = ''C''"
    by (simp add: stop_called_def)
  have f: "fetch_departures example_api ''C'' = (''Error'', [delayed_tram])"
    by code_simp
  have h: "''Error'' = ''Not Found'' \<or> ''Error'' = ''Error''"
    by simp
  from sentinel_name_skipped [where api = example_api and s = "stop_called ''C''"
      and nm = "''Error''" and calls = "[delayed_tram]"
      and parse = fromisoformat and sysoff = "\<lambda>n. 0" and xs = "[stop_called ''A'']"
      and ys = "[stop_called ''D'']" and tz = oslo_winter and now_utc = 1704103200000000, OF c h]
  have "get_all_departures fromisoformat (\<lambda>n. 0) example_api
          [stop_called ''A'', stop_called ''C'', stop_called ''D''] oslo_winter 1704103200000000
        = get_all_departures fromisoformat (\<lambda>n. 0) example_api
          [stop_called ''A'', stop_called ''D''] oslo_winter 1704103200000000"
    by (simp only: append.simps)
  with c f ex_get_all_AD show ?thesis
    unfolding i by (simp only: simp_thms)
qed

section \<open>Properties of the rendering and of the refresh loop\<close>

lemma draw_rows_enumerate:
  "draw_rows textbbox parse now_utc (y + 15 * int n) deps
   = concat (map (\<lambda>(i, d). draw_row textbbox parse now_utc (y + 15 * int i) d) (enumerate n deps))"
proof (induction deps arbitrary: n)
  case Nil
  show ?case by simp
next
  case (Cons d deps)
  have "draw_rows textbbox parse now_utc (y + 15 * int n + 15) deps
        = concat (map (\<lambda>(i, d). draw_row textbbox parse now_utc (y + 15 * int i) d)
            (enumerate (Suc n) deps))"
    using Cons.IH [of "Suc n"] by (simp add: algebra_simps)
  then show ?case
    by simp
qed

lemma draw_board_rows:
  "draw_board textbbox parse dev num_display now_local now_utc deps stop_infos =
     [Rectangle 0 0 (width dev - 1) (height dev - 1),
      Text (width dev - (fst (snd (snd (textbbox (0, 0) now_local))) - fst (textbbox (0, 0) now_local)) - 5)
        5 now_local FONT,
      Text 5 5 (header_text stop_infos) FONT]
     @ (if delayed_routes parse deps \<noteq> {}
        then [Text 5 20 (''Delays: '' @ join '', '' (sorted_list_of_set (delayed_routes parse deps))) FONT]
        else [])
     @ concat (map (\<lambda>(i, d). draw_row textbbox parse now_utc
                    ((if delayed_routes parse deps \<noteq> {} then 32 else 25) + 15 * int i) d)
         (enumerate 0 (slice_to num_display deps)))
     @ [Display]"
  using draw_rows_enumerate [of textbbox parse now_utc _ 0 "slice_to num_display deps"]
  by (simp add: draw_board_def Let_def split: prod.splits)

lemma row_minutes_both_or_none:
  "row_minutes parse now_utc dep = (ms, mu) \<Longrightarrow> (ms = None) = (mu = None)"
  by (auto simp add: row_minutes_def fallback_def Let_def split: if_splits)

lemma length_str_nat: "Suc 0 \<le> length (str_nat n)"
  by (subst str_nat.simps) simp

lemma minutes_text_format:
  assumes "0 \<le> a"
  shows "minutes_text a = (if a < 10 then CHR '' '' # str_int a else str_int a) @ ''m''"
proof (cases "a < 10")
  case True
  with assms have "nat a < 10"
    by linarith
  then have "str_nat (nat a) = [digit_char (nat a)]"
    by (subst str_nat.simps) simp
  with assms True show ?thesis
    by (simp add: minutes_text_def rjust2_def str_int_def)
next
  case False
  then have "\<not> nat a < 10"
    by linarith
  then have "str_nat (nat a) = str_nat (nat a div 10) @ [digit_char (nat a mod 10)]"
    by (subst str_nat.simps) simp
  then have "length (str_nat (nat a)) = Suc (length (str_nat (nat a div 10)))"
    by simp
  with length_str_nat [of "nat a div 10"] have "2 \<le> length (str_nat (nat a))"
    by linarith
  with assms False show ?thesis
    by (simp add: minutes_text_def rjust2_def str_int_def)
qed

text \<open>
  Claim C2. A departure row drawn at height \<open>y\<close> is the icon, the line code and the
  destination, followed by its time field. With \<open>(ms, mu)\<close> the scheduled and updated
  minutes of the row: if the departure is realtime and both values are present and
  differ, the time field is the scheduled minutes at x = 200, a line at the vertical
  middle of the measured box of that text from its left to its right edge, and the
  updated minutes 4 pixels right of the box; otherwise it is the updated minutes alone
  at x = 200, or 0 when they are absent, which is when both are absent. A minute text
  is the number right-aligned in two characters, followed by \<open>m\<close>. The frame consists
  of the header, the delay line if any, these rows for the displayed departures, 15
  pixels apart, and the commit.
\<close>

theorem time_field_rule:
  assumes "row_minutes parse now_utc dep = (ms, mu)"
      and "textbbox (200, y) (minutes_text (the ms)) = (x0, y0, x1, y1)"
  shows "draw_row textbbox parse now_utc y dep =
           [Text 5 y (if map lower_char (case transportMode dep of None \<Rightarrow> [] | Some m \<Rightarrow> m) = ''tram''
                      then tram_symbol else bus_symbol) FONT_ICON,
            Text 35 y (publicCode dep) FONT,
            Text 65 y (take 18 (case frontText dep of None \<Rightarrow> [] | Some t \<Rightarrow> t)) FONT]
           @ (if realtime dep \<and> (\<exists>a b. ms = Some a \<and> mu = Some b \<and> a \<noteq> b)
              then [Text 200 y (minutes_text (the ms)) FONT,
                    Line x0 ((y0 + y1) div 2) x1 ((y0 + y1) div 2),
                    Text (x1 + 4) y (minutes_text (the mu)) FONT]
              else [Text 200 y (minutes_text (case mu of None \<Rightarrow> 0 | Some m \<Rightarrow> m)) FONT])
         \<and> ((ms = None) = (mu = None))
         \<and> (0 \<le> a \<longrightarrow> minutes_text a = (if a < 10 then CHR '' '' # str_int a else str_int a) @ ''m'')
         \<and> draw_board textbbox parse dev num_display now_local now_utc deps stop_infos =
             [Rectangle 0 0 (width dev - 1) (height dev - 1),
              Text (width dev - (fst (snd (snd (textbbox (0, 0) now_local))) - fst (textbbox (0, 0) now_local)) - 5)
                5 now_local FONT,
              Text 5 5 (header_text stop_infos) FONT]
             @ (if delayed_routes parse deps \<noteq> {}
                then [Text 5 20 (''Delays: '' @ join '', '' (sorted_list_of_set (delayed_routes parse deps))) FONT]
                else [])
             @ concat (map (\<lambda>(i, d). draw_row textbbox parse now_utc
                            ((if delayed_routes parse deps \<noteq> {} then 32 else 25) + 15 * int i) d)
                 (enumerate 0 (slice_to num_display deps)))
             @ [Display]"
proof (intro conjI)
  show "draw_row textbbox parse now_utc y dep =
           [Text 5 y (if map lower_char (case transportMode dep of None \<Rightarrow> [] | Some m \<Rightarrow> m) = ''tram''
                      then tram_symbol else bus_symbol) FONT_ICON,
            Text 35 y (publicCode dep) FONT,
            Text 65 y (take 18 (case frontText dep of None \<Rightarrow> [] | Some t \<Rightarrow> t)) FONT]
           @ (if realtime dep \<and> (\<exists>a b. ms = Some a \<and> mu = Some b \<and> a \<noteq> b)
              then [Text 200 y (minutes_text (the ms)) FONT,
                    Line x0 ((y0 + y1) div 2) x1 ((y0 + y1) div 2),
                    Text (x1 + 4) y (minutes_text (the mu)) FONT]
              else [Text 200 y (minutes_text (case mu of None \<Rightarrow> 0 | Some m \<Rightarrow> m)) FONT])"
    using assms by (auto simp add: draw_row_def time_field_def Let_def)
  show "(ms = None) = (mu = None)"
    using assms(1) by (rule row_minutes_both_or_none)
  show "0 \<le> a \<longrightarrow> minutes_text a = (if a < 10 then CHR '' '' # str_int a else str_int a) @ ''m''"
    using minutes_text_format [of a] by blast
  show "draw_board textbbox parse dev num_display now_local now_utc deps stop_infos =
             [Rectangle 0 0 (width dev - 1) (height dev - 1),
              Text (width dev - (fst (snd (snd (textbbox (0, 0) now_local))) - fst (textbbox (0, 0) now_local)) - 5)
                5 now_local FONT,
              Text 5 5 (header_text stop_infos) FONT]
             @ (if delayed_routes parse deps \<noteq> {}
                then [Text 5 20 (''Delays: '' @ join '', '' (sorted_list_of_set (delayed_routes parse deps))) FONT]
                else [])
             @ concat (map (\<lambda>(i, d). draw_row textbbox parse now_utc
                            ((if delayed_routes parse deps \<noteq> {} then 32 else 25) + 15 * int i) d)
                 (enumerate 0 (slice_to num_display deps)))
             @ [Display]"
    by (rule draw_board_rows)
qed

theorem time_field_rule_witness:
  "row_minutes fromisoformat 1704103200000000 delayed_tram = (Some 0, Some 5)
   \<and> fixed_width (200, 32) (minutes_text 0) = (200, 32, 218, 43)
   \<and> draw_row fixed_width fromisoformat 1704103200000000 32 delayed_tram =
       [Text 5 32 tram_symbol FONT_ICON, Text 35 32 ''12'' FONT, Text 65 32 ''Majorstuen'' FONT,
        Text 200 32 '' 0m'' FONT, Line 200 37 218 37, Text 222 32 '' 5m'' FONT]
   \<and> minutes_text 5 = CHR '' '' # str_int 5 @ ''m''"
proof -
  have a: "row_minutes fromisoformat 1704103200000000 delayed_tram = (Some 0, Some 5)"
    by code_simp
  have b: "fixed_width (200, 32) (minutes_text (the (Some 0))) = (200, 32, 218, 43)"
    by code_simp
  have e: "(if map lower_char (case transportMode delayed_tram of None \<Rightarrow> [] | Some m \<Rightarrow> m) = ''tram''
            then tram_symbol else bus_symbol) = tram_symbol"
      "publicCode delayed_tram = ''12''"
      "take 18 (case frontText delayed_tram of None \<Rightarrow> [] | Some t \<Rightarrow> t) = ''Majorstuen''"
      "realtime delayed_tram = True"
      "minutes_text 0 = '' 0m''" "minutes_text 5 = '' 5m''"
    by code_simp+
  have "draw_row fixed_width fromisoformat 1704103200000000 32 delayed_tram =
       [Text 5 32 tram_symbol FONT_ICON, Text 35 32 ''12'' FONT, Text 65 32 ''Majorstuen'' FONT,
        Text 200 32 '' 0m'' FONT, Line 200 37 218 37, Text 222 32 '' 5m'' FONT]"
    using time_field_rule [where textbbox = fixed_width and parse = fromisoformat
        and now_utc = 1704103200000000 and dep = delayed_tram and y = 32, OF a b, THEN conjunct1]
    by (simp add: e)
  moreover have "minutes_text 5 = CHR '' '' # str_int 5 @ ''m''"
    using time_field_rule [where textbbox = fixed_width and parse = fromisoformat
        and now_utc = 1704103200000000 and dep = delayed_tram and y = 32 and a = 5, OF a b,
        THEN conjunct2, THEN conjunct2, THEN conjunct1]
    by simp
  ultimately show ?thesis
    using a b by simp
qed

text \<open>
  Claim C10. The third drawing call of a frame is the header at (5, 5): the literal
  \<open>Departure Board\<close> when there are no stop summaries, and otherwise the summaries joined
  with \<open>" / "\<close> and cut to 40 characters.
\<close>

theorem header_fallback:
  "draw_board textbbox parse dev num_display now_local now_utc deps stop_infos ! 2
     = Text 5 5 (if stop_infos = [] then ''Departure Board''
                 else take 40 (join '' / '' stop_infos)) FONT
   \<and> header_text [] = ''Departure Board''
   \<and> (stop_infos \<noteq> [] \<longrightarrow> header_text stop_infos = take 40 (join '' / '' stop_infos))
   \<and> length (header_text stop_infos) \<le> 40"
  by (simp add: draw_board_rows) (simp add: header_text_def)

theorem header_fallback_witness:
  "draw_board fixed_width fromisoformat panel 3 ''11:00:00'' 1704103200000000 [] [] ! 2
     = Text 5 5 ''Departure Board'' FONT
   \<and> draw_board fixed_width fromisoformat panel 3 ''11:00:00'' 1704103200000000 []
        [''Alpha 5m 11:05'', ''Delta 5m 11:05'', ''Gamma 12m 11:12''] ! 2
     = Text 5 5 ''Alpha 5m 11:05 / Delta 5m 11:05 / Gamma '' FONT"
proof -
  have j: "take 40 (join '' / '' [''Alpha 5m 11:05'', ''Delta 5m 11:05'', ''Gamma 12m 11:12''])
           = ''Alpha 5m 11:05 / Delta 5m 11:05 / Gamma ''"
    by code_simp
  from header_fallback [of fixed_width fromisoformat panel 3 "''11:00:00''" 1704103200000000 "[]" "[]"]
  have a: "draw_board fixed_width fromisoformat panel 3 ''11:00:00'' 1704103200000000 [] [] ! 2
     = Text 5 5 ''Departure Board'' FONT"
    by simp
  from header_fallback [of fixed_width fromisoformat panel 3 "''11:00:00''" 1704103200000000 "[]"
      "[''Alpha 5m 11:05'', ''Delta 5m 11:05'', ''Gamma 12m 11:12'']"]
  have b: "draw_board fixed_width fromisoformat panel 3 ''11:00:00'' 1704103200000000 []
        [''Alpha 5m 11:05'', ''Delta 5m 11:05'', ''Gamma 12m 11:12''] ! 2
     = Text 5 5 ''Alpha 5m 11:05 / Delta 5m 11:05 / Gamma '' FONT"
    by (simp only: j list.distinct if_False simp_thms)
  from a b show ?thesis
    by (simp only: simp_thms)
qed

text \<open>
  Claim C8, as amended. Every iteration of the loop draws its frame from the cache and
  from the clock reading \<open>render_utc\<close> it takes for that frame: the scheduled and
  updated minutes of every row of the frame are computed from the cached call and that
  one instant, by the time calculation followed by the fallback, and the delayed line
  codes are computed from the cached calls alone. Between two fetches the cache itself
  is not changed; a fetch replaces it with the result of the aggregation at the clock
  reading \<open>fetch_utc\<close> of that fetch.
\<close>

theorem minutes_per_render:
  "(let c1 = refresh_cache parse sysoff api stops tz refresh c k
    in fst (main_loop textbbox parse sysoff api stops tz refresh dev num_display c (k # ks))
       = draw_board textbbox parse dev num_display (render_local k) (render_utc k)
           (cached_deps c1) (cached_stop_infos c1)
         # fst (main_loop textbbox parse sysoff api stops tz refresh dev num_display c1 ks))
   \<and> (now k < next_fetch c \<longrightarrow> refresh_cache parse sysoff api stops tz refresh c k = c)
   \<and> (next_fetch c \<le> now k \<longrightarrow>
        refresh_cache parse sysoff api stops tz refresh c k
        = \<lparr>next_fetch = now k + refresh,
            cached_deps = fst (get_all_departures parse sysoff api stops tz (fetch_utc k)),
            cached_stop_infos = snd (get_all_departures parse sysoff api stops tz (fetch_utc k))\<rparr>)
   \<and> draw_board textbbox parse dev num_display now_local now_utc deps stop_infos =
       [Rectangle 0 0 (width dev - 1) (height dev - 1),
        Text (width dev - (fst (snd (snd (textbbox (0, 0) now_local))) - fst (textbbox (0, 0) now_local)) - 5)
          5 now_local FONT,
        Text 5 5 (header_text stop_infos) FONT]
       @ (if delayed_routes parse deps \<noteq> {}
          then [Text 5 20 (''Delays: '' @ join '', '' (sorted_list_of_set (delayed_routes parse deps))) FONT]
          else [])
       @ concat (map (\<lambda>(i, d). draw_row textbbox parse now_utc
                      ((if delayed_routes parse deps \<noteq> {} then 32 else 25) + 15 * int i) d)
           (enumerate 0 (slice_to num_display deps)))
       @ [Display]
   \<and> draw_row textbbox parse now_utc y dep =
       [Text 5 y (if map lower_char (case transportMode dep of None \<Rightarrow> [] | Some m \<Rightarrow> m) = ''tram''
                  then tram_symbol else bus_symbol) FONT_ICON,
        Text 35 y (publicCode dep) FONT,
        Text 65 y (take 18 (case frontText dep of None \<Rightarrow> [] | Some t \<Rightarrow> t)) FONT]
       @ time_field textbbox y (realtime dep) (fallback (time_calc parse now_utc dep))
   \<and> delayed_routes parse deps
       = publicCode ` {dep \<in> set deps. is_delayed parse (aimedArrivalTime dep) (expectedArrivalTime dep)}"
proof (intro conjI impI)
  show "let c1 = refresh_cache parse sysoff api stops tz refresh c k
    in fst (main_loop textbbox parse sysoff api stops tz refresh dev num_display c (k # ks))
       = draw_board textbbox parse dev num_display (render_local k) (render_utc k)
           (cached_deps c1) (cached_stop_infos c1)
         # fst (main_loop textbbox parse sysoff api stops tz refresh dev num_display c1 ks)"
    by (simp add: Let_def render_def split: prod.splits)
  show "refresh_cache parse sysoff api stops tz refresh c k = c" if "now k < next_fetch c"
    using that by (simp add: refresh_cache_def)
  show "refresh_cache parse sysoff api stops tz refresh c k
        = \<lparr>next_fetch = now k + refresh,
            cached_deps = fst (get_all_departures parse sysoff api stops tz (fetch_utc k)),
            cached_stop_infos = snd (get_all_departures parse sysoff api stops tz (fetch_utc k))\<rparr>"
    if "next_fetch c \<le> now k"
    using that by (simp add: refresh_cache_def split: prod.splits)
  show "draw_board textbbox parse dev num_display now_local now_utc deps stop_infos =
       [Rectangle 0 0 (width dev - 1) (height dev - 1),
        Text (width dev - (fst (snd (snd (textbbox (0, 0) now_local))) - fst (textbbox (0, 0) now_local)) - 5)
          5 now_local FONT,
        Text 5 5 (header_text stop_infos) FONT]
       @ (if delayed_routes parse deps \<noteq> {}
          then [Text 5 20 (''Delays: '' @ join '', '' (sorted_list_of_set (delayed_routes parse deps))) FONT]
          else [])
       @ concat (map (\<lambda>(i, d). draw_row textbbox parse now_utc
                      ((if delayed_routes parse deps \<noteq> {} then 32 else 25) + 15 * int i) d)
           (enumerate 0 (slice_to num_display deps)))
       @ [Display]"
    by (rule draw_board_rows)
  show "draw_row textbbox parse now_utc y dep =
       [Text 5 y (if map lower_char (case transportMode dep of None \<Rightarrow> [] | Some m \<Rightarrow> m) = ''tram''
                  then tram_symbol else bus_symbol) FONT_ICON,
        Text 35 y (publicCode dep) FONT,
        Text 65 y (take 18 (case frontText dep of None \<Rightarrow> [] | Some t \<Rightarrow> t)) FONT]
       @ time_field textbbox y (realtime dep) (fallback (time_calc parse now_utc dep))"
    by (simp add: draw_row_def row_minutes_def Let_def)
  show "delayed_routes parse deps
       = publicCode ` {dep \<in> set deps. is_delayed parse (aimedArrivalTime dep) (expectedArrivalTime dep)}"
    by (simp add: delayed_routes_def)
qed

lemma first_cycle_value:
  "first_cycle = \<lparr>next_fetch = 1704103230000000, cached_deps = [delayed_tram, garbled],
     cached_stop_infos = [''Alpha 5m 11:05'']\<rparr>"
  by code_simp

text \<open>
  Claim C8 as stated fails: the minutes are not fixed at the fetch. In two iterations one
  second apart the first fetches and the second does not, the cache is the same, and
  the first departure is drawn with 5 updated minutes in the first frame and with 4 in
  the second.
\<close>

theorem minutes_recomputed_counterexample:
  "next_fetch start \<le> now tick1
   \<and> first_cycle = \<lparr>next_fetch = 1704103230000000, cached_deps = [delayed_tram, garbled],
        cached_stop_infos = [''Alpha 5m 11:05'']\<rparr>
   \<and> now tick2 < next_fetch first_cycle
   \<and> refresh_cache fromisoformat (\<lambda>n. 0) example_api [stop_called ''A''] oslo_winter 30000000
        first_cycle tick2 = first_cycle
   \<and> row_minutes fromisoformat (fetch_utc tick1) delayed_tram = (Some 0, Some 5)
   \<and> row_minutes fromisoformat (render_utc tick2) delayed_tram = (Some 0, Some 4)
   \<and> fst (main_loop fixed_width fromisoformat (\<lambda>n. 0) example_api [stop_called ''A''] oslo_winter
         30000000 panel 1 start [tick1, tick2])
     = [[Rectangle 0 0 255 63, Text 203 5 ''11:00:00'' FONT, Text 5 5 ''Alpha 5m 11:05'' FONT,
         Text 5 20 ''Delays: 12'' FONT,
         Text 5 32 tram_symbol FONT_ICON, Text 35 32 ''12'' FONT, Text 65 32 ''Majorstuen'' FONT,
         Text 200 32 '' 0m'' FONT, Line 200 37 218 37, Text 222 32 '' 5m'' FONT, Display],
        [Rectangle 0 0 255 63, Text 203 5 ''11:00:01'' FONT, Text 5 5 ''Alpha 5m 11:05'' FONT,
         Text 5 20 ''Delays: 12'' FONT,
         Text 5 32 tram_symbol FONT_ICON, Text 35 32 ''12'' FONT, Text 65 32 ''Majorstuen'' FONT,
         Text 200 32 '' 0m'' FONT, Line 200 37 218 37, Text 222 32 '' 4m'' FONT, Display]]"
  by code_simp

theorem minutes_per_render_witness:
  "now tick2 < next_fetch first_cycle
   \<and> refresh_cache fromisoformat (\<lambda>n. 0) example_api [stop_called ''A''] oslo_winter 30000000
        first_cycle tick2 = first_cycle
   \<and> next_fetch start \<le> now tick1
   \<and> cached_deps (refresh_cache fromisoformat (\<lambda>n. 0) example_api [stop_called ''A''] oslo_winter
        30000000 start tick1) = [delayed_tram, garbled]"
proof -
  have a: "now tick2 < next_fetch first_cycle"
    by code_simp
  have b: "next_fetch start \<le> now tick1"
    by code_simp
  have g: "fst (get_all_departures fromisoformat (\<lambda>n. 0) example_api [stop_called ''A''] oslo_winter
         (fetch_utc tick1)) = [delayed_tram, garbled]"
    by code_simp
  note t = minutes_per_render [where parse = fromisoformat and sysoff = "\<lambda>n. 0" and api = example_api
      and stops = "[stop_called ''A'']" and tz = oslo_winter and refresh = 30000000]
  from t [where c = first_cycle and k = tick2, THEN conjunct2, THEN conjunct1] a
  have c: "refresh_cache fromisoformat (\<lambda>n. 0) example_api [stop_called ''A''] oslo_winter 30000000
        first_cycle tick2 = first_cycle"
    by (rule mp)
  from t [where c = start and k = tick1, THEN conjunct2, THEN conjunct2, THEN conjunct1] b
  have "refresh_cache fromisoformat (\<lambda>n. 0) example_api [stop_called ''A''] oslo_winter 30000000
        start tick1
        = \<lparr>next_fetch = now tick1 + 30000000,
            cached_deps = fst (get_all_departures fromisoformat (\<lambda>n. 0) example_api
              [stop_called ''A''] oslo_winter (fetch_utc tick1)),
            cached_stop_infos = snd (get_all_departures fromisoformat (\<lambda>n. 0) example_api
              [stop_called ''A''] oslo_winter (fetch_utc tick1))\<rparr>"
    by (rule mp)
  then have d: "cached_deps (refresh_cache fromisoformat (\<lambda>n. 0) example_api [stop_called ''A'']
        oslo_winter 30000000 start tick1) = [delayed_tram, garbled]"
    by (simp add: g)
  from a b c d show ?thesis
    by (simp only: simp_thms)
qed

end
